theory Spec2Isabelle
  imports Main
begin

section \<open>Byte strings and the formatting used by the messages\<close>

text \<open>
  Go strings and byte slices are sequences of bytes; both are modelled by \<open>string\<close>
  (a list of 8-bit characters).  A \<open>[]byte\<close> that may be \<open>nil\<close> is a \<open>bytes option\<close>.
\<close>

type_synonym bytes = string

definition isLower :: "char \<Rightarrow> bool" where
  "isLower c = (97 \<le> (of_char c :: nat) \<and> (of_char c :: nat) \<le> 122)"

definition isUpper :: "char \<Rightarrow> bool" where
  "isUpper c = (65 \<le> (of_char c :: nat) \<and> (of_char c :: nat) \<le> 90)"

definition isDigit :: "char \<Rightarrow> bool" where
  "isDigit c = (48 \<le> (of_char c :: nat) \<and> (of_char c :: nat) \<le> 57)"

text \<open>Decimal rendering of an integer, as the verb \<open>%v\<close> prints a Go \<open>int\<close>.\<close>

fun itoa_nat :: "nat \<Rightarrow> string" where
  "itoa_nat n =
     (if n < 10 then [char_of (48 + n)]
      else itoa_nat (n div 10) @ [char_of (48 + n mod 10)])"

declare itoa_nat.simps [simp del]

definition itoa :: "int \<Rightarrow> string" where
  "itoa i = (if i < 0 then CHR ''-'' # itoa_nat (nat (- i)) else itoa_nat (nat i))"

text \<open>\<open>fmt.Sprintln\<close> on string operands: a space between operands, a newline at the end.\<close>

definition newline :: char where
  "newline = CHR 0x0A"

fun join_with :: "string \<Rightarrow> string list \<Rightarrow> string" where
  "join_with sep [] = []"
| "join_with sep [x] = x"
| "join_with sep (x # y # ys) = x @ sep @ join_with sep (y # ys)"

definition Sprintln :: "string list \<Rightarrow> string" where
  "Sprintln xs = join_with '' '' xs @ [newline]"

section \<open>The parts of net/textproto, net/http and net/url that the options call\<close>

text \<open>
  \<open>validHeaderFieldByte\<close>: the token characters of RFC 7230 (letters, digits and
  \<open>! # $ % & ' * + - . ^ _ ` | ~\<close>).
\<close>

definition validHeaderFieldByte :: "char \<Rightarrow> bool" where
  "validHeaderFieldByte c =
     (isLower c \<or> isUpper c \<or> isDigit c \<or>
      List.member [CHR 0x21, CHR 0x23, CHR 0x24, CHR 0x25, CHR 0x26, CHR 0x27, CHR 0x2A,
                   CHR 0x2B, CHR 0x2D, CHR 0x2E, CHR 0x5E, CHR 0x5F, CHR 0x60, CHR 0x7C,
                   CHR 0x7E] c)"

text \<open>
  The canonicalisation loop: the first letter and every letter after a hyphen are put in
  upper case, every other letter in lower case.  The flag is \<open>upper\<close> of the Go loop.
\<close>

fun canonicalMIMEHeaderKey :: "bool \<Rightarrow> string \<Rightarrow> string" where
  "canonicalMIMEHeaderKey upper [] = []"
| "canonicalMIMEHeaderKey upper (c # cs) =
     (let c' = (if upper \<and> isLower c then char_of ((of_char c :: nat) - 32)
                else if \<not> upper \<and> isUpper c then char_of ((of_char c :: nat) + 32)
                else c)
      in c' # canonicalMIMEHeaderKey (c' = CHR ''-'') cs)"

text \<open>A key holding a byte that is not a token character is returned unchanged.\<close>

definition CanonicalHeaderKey :: "string \<Rightarrow> string" where
  "CanonicalHeaderKey s =
     (if list_all validHeaderFieldByte s then canonicalMIMEHeaderKey True s else s)"

text \<open>\<open>http.Header\<close> is \<open>map[string][]string\<close>.\<close>

type_synonym Header = "string \<rightharpoonup> string list"

definition Header_Set :: "Header \<Rightarrow> string \<Rightarrow> string \<Rightarrow> Header" where
  "Header_Set h key v = h(CanonicalHeaderKey key \<mapsto> [v])"

definition Header_Add :: "Header \<Rightarrow> string \<Rightarrow> string \<Rightarrow> Header" where
  "Header_Add h key v =
     (let k = CanonicalHeaderKey key
      in h(k \<mapsto> (case h k of None \<Rightarrow> [] | Some vs \<Rightarrow> vs) @ [v]))"

definition Header_Get :: "Header \<Rightarrow> string \<Rightarrow> string" where
  "Header_Get h key =
     (case h (CanonicalHeaderKey key) of
        None \<Rightarrow> []
      | Some [] \<Rightarrow> []
      | Some (v # _) \<Rightarrow> v)"

text \<open>
  \<open>url.QueryEscape\<close>: letters, digits and \<open>- _ . ~\<close> stay, a space becomes \<open>+\<close>,
  every other byte becomes \<open>%XX\<close> with upper-case hexadecimal digits.
\<close>

definition shouldEscape :: "char \<Rightarrow> bool" where
  "shouldEscape c =
     (\<not> (isLower c \<or> isUpper c \<or> isDigit c \<or>
         List.member [CHR ''-'', CHR ''_'', CHR ''.'', CHR ''~''] c))"

definition upperhex :: "nat \<Rightarrow> char" where
  "upperhex n = (if n < 10 then char_of (48 + n) else char_of (55 + n))"

definition escape_byte :: "char \<Rightarrow> string" where
  "escape_byte c =
     (if shouldEscape c then
        (if c = CHR '' '' then ''+''
         else [CHR ''%'', upperhex ((of_char c :: nat) div 16), upperhex ((of_char c :: nat) mod 16)])
      else [c])"

definition QueryEscape :: "string \<Rightarrow> string" where
  "QueryEscape s = concat (map escape_byte s)"

text \<open>Go compares strings byte by byte; \<open>sort.Strings\<close> sorts in that order.\<close>

fun string_less :: "string \<Rightarrow> string \<Rightarrow> bool" where
  "string_less [] [] = False"
| "string_less [] (b # bs) = True"
| "string_less (a # as) [] = False"
| "string_less (a # as) (b # bs) =
     ((of_char a :: nat) < of_char b \<or> (a = b \<and> string_less as bs))"

fun insert_string :: "string \<Rightarrow> string list \<Rightarrow> string list" where
  "insert_string k [] = [k]"
| "insert_string k (x # xs) = (if string_less x k then x # insert_string k xs else k # x # xs)"

definition sort_Strings :: "string list \<Rightarrow> string list" where
  "sort_Strings ks = foldr insert_string ks []"

text \<open>
  \<open>url.Values\<close> is \<open>map[string][]string\<close>, written here as the list of its entries
  (one entry per key).  \<open>Encode\<close> walks the sorted keys and writes \<open>key=value\<close> for
  every value of the key, the pairs separated by \<open>&\<close>.
\<close>

type_synonym Values = "(string \<times> string list) list"

definition Values_Encode :: "Values \<Rightarrow> string" where
  "Values_Encode v =
     join_with ''&''
       (concat (map (\<lambda>k. map (\<lambda>x. QueryEscape k @ ''='' @ QueryEscape x)
                              (case map_of v k of None \<Rightarrow> [] | Some vs \<Rightarrow> vs))
                    (sort_Strings (remdups (map fst v)))))"

section \<open>The test case and its options\<close>

text \<open>
  An \<open>io.Reader\<close> is one of the two readers this package creates itself, or a reader
  supplied by the caller (identified by a number).  A nil reader is \<open>None\<close>.
\<close>

datatype reader = BytesReader bytes | StringsReader string | OtherReader nat

record Request =
  req_Method :: string
  req_URL :: string
  req_Header :: Header
  req_Body :: "reader option"

record Response =
  StatusCode :: int
  resp_Header :: Header
  resp_Body :: "bytes \<times> string option"

text \<open>
  \<open>resp_Body\<close> is what \<open>ioutil.ReadAll\<close> returns on the body: the bytes read and the
  error, if any.  The server under test is its base URL and what its client answers to
  a request (given the cookie jar bound to the client, if any): a transport error or a
  response.
\<close>

record Server =
  URL :: string
  Do :: "nat option \<Rightarrow> Request \<Rightarrow> string + Response"

record ('v, 'o) testCase =
  server :: Server
  tc_method :: string
  path :: string
  mutateReq :: "(Request \<Rightarrow> Request) list"
  input :: "reader option"
  jar :: "nat option"
  expectCode :: int
  expectRaw :: "bytes option"
  expectJSON :: "'v option"
  outputCmpOpt :: "'o list"
  expectHeaders :: "string \<rightharpoonup> string"
  grabOutput :: "nat option"
  fatalFailure :: bool

text \<open>
  A value of type \<open>interface{}\<close> handed to \<open>json.Marshal\<close>: nil, a reader, or a value of
  the caller's type \<open>'v\<close>.
\<close>

datatype 'v any = Nil | Reader reader | Val 'v

definition reader_any :: "reader option \<Rightarrow> 'v any" where
  "reader_any r = (case r of None \<Rightarrow> Nil | Some x \<Rightarrow> Reader x)"

text \<open>
  An option mutates the test case; \<open>WithJSONInput\<close> panics when marshalling fails, so
  the result of applying an option is the panic value (\<open>Inl\<close>) or the new test case.
\<close>

type_synonym ('v, 'o) TestOption = "('v, 'o) testCase \<Rightarrow> string + ('v, 'o) testCase"

definition WithInput :: "reader option \<Rightarrow> ('v, 'o) TestOption" where
  "WithInput r tc = Inr (tc\<lparr>input := r\<rparr>)"

definition setContentType :: "string \<Rightarrow> Request \<Rightarrow> Request" where
  "setContentType v r = r\<lparr>req_Header := Header_Set (req_Header r) ''Content-Type'' v\<rparr>"

text \<open>
  \<open>json.Marshal\<close> is the parameter \<open>marshal\<close>.  The source marshals \<open>tc.input\<close>, the
  reader currently stored in the test case, and not its own argument.
\<close>

definition WithJSONInput ::
  "('v any \<Rightarrow> string + bytes) \<Rightarrow> 'v any \<Rightarrow> ('v, 'o) TestOption" where
  "WithJSONInput marshal inp tc =
     (case marshal (reader_any (input tc)) of
        Inl err \<Rightarrow> Inl err
      | Inr raw \<Rightarrow>
          Inr (tc\<lparr>input := Some (BytesReader raw),
                  mutateReq := mutateReq tc @ [setContentType ''application/json'']\<rparr>))"

definition WithFormInput :: "Values \<Rightarrow> ('v, 'o) TestOption" where
  "WithFormInput values tc =
     (let raw = Values_Encode values
      in Inr (tc\<lparr>input := Some (StringsReader raw),
                 mutateReq := mutateReq tc @
                   [setContentType ''application/x-www-form-urlencoded'']\<rparr>))"

definition headerMutator :: "string \<Rightarrow> string \<Rightarrow> Request \<Rightarrow> Request" where
  "headerMutator name v r =
     (if CanonicalHeaderKey name = ''Content-Type''
      then r\<lparr>req_Header := Header_Set (req_Header r) name v\<rparr>
      else r\<lparr>req_Header := Header_Add (req_Header r) name v\<rparr>)"

definition WithHeader :: "string \<Rightarrow> string \<Rightarrow> ('v, 'o) TestOption" where
  "WithHeader name v tc = Inr (tc\<lparr>mutateReq := mutateReq tc @ [headerMutator name v]\<rparr>)"

definition WithCookieJar :: "nat option \<Rightarrow> ('v, 'o) TestOption" where
  "WithCookieJar j tc = Inr (tc\<lparr>jar := j\<rparr>)"

definition ExpectStatusCode :: "int \<Rightarrow> ('v, 'o) TestOption" where
  "ExpectStatusCode code tc = Inr (tc\<lparr>expectCode := code\<rparr>)"

definition ExpectHeader :: "string \<Rightarrow> string \<Rightarrow> ('v, 'o) TestOption" where
  "ExpectHeader name v tc = Inr (tc\<lparr>expectHeaders := (expectHeaders tc)(name \<mapsto> v)\<rparr>)"


definition ExpectJSONResponse :: "'v option \<Rightarrow> 'o list \<Rightarrow> ('v, 'o) TestOption" where
  "ExpectJSONResponse out compareOpt tc =
     Inr (tc\<lparr>expectJSON := out, outputCmpOpt := compareOpt\<rparr>)"

definition GrabJSONResponse :: "nat option \<Rightarrow> ('v, 'o) TestOption" where
  "GrabJSONResponse out tc = Inr (tc\<lparr>grabOutput := out\<rparr>)"

definition FatalFailure :: "('v, 'o) TestOption" where
  "FatalFailure tc = Inr (tc\<lparr>fatalFailure := True\<rparr>)"

text \<open>
  \<open>Test\<close> starts from a test case holding the server, the method, the path and an empty
  map of expected headers (every other field has Go's zero value) and applies the
  options from left to right.
\<close>

definition newTestCase :: "Server \<Rightarrow> string \<Rightarrow> string \<Rightarrow> ('v, 'o) testCase" where
  "newTestCase s m p =
     \<lparr>server = s, tc_method = m, path = p, mutateReq = [], input = None, jar = None,
      expectCode = 0, expectRaw = None, expectJSON = None, outputCmpOpt = [],
      expectHeaders = Map.empty, grabOutput = None, fatalFailure = False\<rparr>"

fun applyOptions ::
  "('v, 'o) TestOption list \<Rightarrow> ('v, 'o) testCase \<Rightarrow> string + ('v, 'o) testCase" where
  "applyOptions [] tc = Inr tc"
| "applyOptions (opt # opts) tc =
     (case opt tc of Inl p \<Rightarrow> Inl p | Inr tc' \<Rightarrow> applyOptions opts tc')"

section \<open>The executor\<close>

text \<open>
  The collaborators outside this package are parameters: the check that
  \<open>http.NewRequest\<close> makes on the method and the URL (its error, if any),
  \<open>json.Unmarshal\<close> (from the bytes and the present value of the target to the error,
  if any, and the new value of the target), \<open>reflect.New(reflect.TypeOf(x))\<close> (a fresh
  zero value of the type of \<open>x\<close>), \<open>cmp.Diff\<close>, and the \<open>%#v\<close> rendering of a header.
  \<open>cmp.Diff\<close> panics on some inputs (two applicable comparers, an unexported field):
  its result is the panic value (\<open>Inl\<close>) or the diff.
\<close>

record ('v, 'o) lib =
  NewRequest_error :: "string \<Rightarrow> string \<Rightarrow> string option"
  Unmarshal :: "bytes \<Rightarrow> 'v \<Rightarrow> string option \<times> 'v"
  New_TypeOf :: "'v \<Rightarrow> 'v"
  Diff :: "'v \<Rightarrow> 'v \<Rightarrow> 'o list \<Rightarrow> string + string"
  GoSyntax :: "Header \<Rightarrow> string"

text \<open>
  \<open>testing.T\<close> records every message with the source line of the call.  An event is
  the place in \<open>fn\<close> and what happened there: the guarded statement was entered, or
  \<open>t.Log\<close>, \<open>t.Error\<close> or \<open>t.Fatal\<close> (and their \<open>f\<close> variants) was called with the
  formatted text, or a panic went through \<open>fn\<close>, which has no \<open>recover\<close>.
  \<open>t.Error\<close> marks the test failed and goes on; \<open>t.Fatal\<close> marks it failed and
  ends the test function; a panic ends the test function too, and the test runner marks
  the test failed before it passes the panic on.  \<open>heap\<close> holds the caller's variables that
  \<open>grabOutput\<close> may point to.
\<close>

datatype site =
  AtNewRequest | AtDo | AtReadAll | AtOutput | AtCode | AtHeader string | AtRaw | AtJSON | AtGrab

datatype action = Enter | Log string | Error string | Fatal string | Panic string

type_synonym event = "site \<times> action"

record 'v T =
  events :: "event list"
  failed :: bool
  exited :: bool
  heap :: "nat \<Rightarrow> 'v"

definition emit :: "site \<Rightarrow> action \<Rightarrow> 'v T \<Rightarrow> 'v T" where
  "emit s a t = t\<lparr>events := events t @ [(s, a)]\<rparr>"

definition enter :: "site \<Rightarrow> 'v T \<Rightarrow> 'v T" where
  "enter s t = emit s Enter t"

definition t_Log :: "site \<Rightarrow> string \<Rightarrow> 'v T \<Rightarrow> 'v T" where
  "t_Log s msg t = emit s (Log msg) t"

definition t_Error :: "site \<Rightarrow> string \<Rightarrow> 'v T \<Rightarrow> 'v T" where
  "t_Error s msg t = (emit s (Error msg) t)\<lparr>failed := True\<rparr>"

definition t_Fatal :: "site \<Rightarrow> string \<Rightarrow> 'v T \<Rightarrow> 'v T" where
  "t_Fatal s msg t = (emit s (Fatal msg) t)\<lparr>failed := True, exited := True\<rparr>"

definition go_panic :: "site \<Rightarrow> string \<Rightarrow> 'v T \<Rightarrow> 'v T" where
  "go_panic s msg t = (emit s (Panic msg) t)\<lparr>failed := True, exited := True\<rparr>"

text \<open>Sequencing of two statements: the second runs unless the first ended the test.\<close>

definition seq :: "('v T \<Rightarrow> 'v T) \<Rightarrow> ('v T \<Rightarrow> 'v T) \<Rightarrow> 'v T \<Rightarrow> 'v T" where
  "seq f g t = (let t' = f t in if exited t' then t' else g t')"

text \<open>\<open>fail\<close> is \<open>t.Errorf\<close>, or \<open>t.Fatalf\<close> when the test case is fail-fast.\<close>

definition fail :: "('v, 'o) testCase \<Rightarrow> site \<Rightarrow> string \<Rightarrow> 'v T \<Rightarrow> 'v T" where
  "fail tc = (if fatalFailure tc then t_Fatal else t_Error)"

definition tag :: "('v, 'o) testCase \<Rightarrow> string" where
  "tag tc = ''['' @ tc_method tc @ '' '' @ path tc @ ''] ''"

definition msg_code :: "('v, 'o) testCase \<Rightarrow> int \<Rightarrow> string" where
  "msg_code tc got =
     tag tc @ ''unexpected response code: want '' @ itoa (expectCode tc) @ '', got '' @ itoa got"

definition msg_header :: "('v, 'o) testCase \<Rightarrow> string \<Rightarrow> string \<Rightarrow> string \<Rightarrow> string" where
  "msg_header tc k v got =
     tag tc @ ''unexpected response header ('' @ k @ ''): want '' @ v @ '', got '' @ got"

definition msg_raw :: "('v, 'o) testCase \<Rightarrow> bytes \<Rightarrow> bytes \<Rightarrow> string" where
  "msg_raw tc want got =
     tag tc @ ''raw output mismatch:'' @ [newline] @ ''want: '' @ want @ [newline] @ ''got: '' @ got"

definition msg_json :: "('v, 'o) testCase \<Rightarrow> string \<Rightarrow> string" where
  "msg_json tc d = tag tc @ ''output mismatch (-want +got):'' @ [newline] @ d"

text \<open>
  \<open>http.NewRequest\<close>: an empty method means GET, the header starts empty.  Then the
  mutators run in the order in which the options queued them.
\<close>

definition NewRequest ::
  "('v, 'o) lib \<Rightarrow> string \<Rightarrow> string \<Rightarrow> reader option \<Rightarrow> string + Request" where
  "NewRequest l m u body =
     (case NewRequest_error l m u of
        Some err \<Rightarrow> Inl err
      | None \<Rightarrow>
          Inr \<lparr>req_Method = (if m = [] then ''GET'' else m), req_URL = u,
               req_Header = Map.empty, req_Body = body\<rparr>)"

definition buildRequest :: "('v, 'o) lib \<Rightarrow> ('v, 'o) testCase \<Rightarrow> string + Request" where
  "buildRequest l tc =
     (case NewRequest l (tc_method tc) (URL (server tc) @ path tc) (input tc) of
        Inl err \<Rightarrow> Inl err
      | Inr req \<Rightarrow> Inr (fold (\<lambda>mut r. mut r) (mutateReq tc) req))"

definition read_body :: "Response \<Rightarrow> 'v T \<Rightarrow> 'v T" where
  "read_body resp t =
     (case snd (resp_Body resp) of
        None \<Rightarrow> enter AtReadAll t
      | Some err \<Rightarrow>
          t_Error AtReadAll (Sprintln [''error reading body:'', err]) (enter AtReadAll t))"

definition log_output :: "bytes \<Rightarrow> 'v T \<Rightarrow> 'v T" where
  "log_output gotRaw t = t_Log AtOutput (Sprintln [''output:'' @ [newline], gotRaw]) t"

definition check_code :: "('v, 'o) testCase \<Rightarrow> Response \<Rightarrow> 'v T \<Rightarrow> 'v T" where
  "check_code tc resp t =
     (if expectCode tc \<noteq> 0 then
        (if StatusCode resp \<noteq> expectCode tc
         then fail tc AtCode (msg_code tc (StatusCode resp)) (enter AtCode t)
         else enter AtCode t)
      else t)"

definition check_header ::
  "('v, 'o) lib \<Rightarrow> ('v, 'o) testCase \<Rightarrow> Response \<Rightarrow> string \<Rightarrow> string \<Rightarrow> 'v T \<Rightarrow> 'v T" where
  "check_header l tc resp k v t =
     (let got = Header_Get (resp_Header resp) k
      in if got \<noteq> v
         then seq (fail tc (AtHeader k) (msg_header tc k v got))
                  (t_Log (AtHeader k) (''header dump: '' @ GoSyntax l (resp_Header resp)))
                  (enter (AtHeader k) t)
         else enter (AtHeader k) t)"

text \<open>
  The loop over \<open>tc.expectHeaders\<close>.  Go ranges over a map in an order of its own
  choosing; \<open>kvs\<close> is the list of entries in the order of this run.
\<close>

fun range_headers ::
  "('v, 'o) lib \<Rightarrow> ('v, 'o) testCase \<Rightarrow> Response \<Rightarrow> (string \<times> string) list \<Rightarrow> 'v T \<Rightarrow> 'v T" where
  "range_headers l tc resp [] t = t"
| "range_headers l tc resp ((k, v) # kvs) t =
     seq (check_header l tc resp k v) (range_headers l tc resp kvs) t"

definition range_order :: "(string \<rightharpoonup> string) \<Rightarrow> (string \<times> string) list \<Rightarrow> bool" where
  "range_order m kvs = (distinct (map fst kvs) \<and> map_of kvs = m)"

definition check_raw :: "('v, 'o) testCase \<Rightarrow> bytes \<Rightarrow> 'v T \<Rightarrow> 'v T" where
  "check_raw tc gotRaw t =
     (case expectRaw tc of
        None \<Rightarrow> t
      | Some want \<Rightarrow>
          if want \<noteq> gotRaw
          then fail tc AtRaw (msg_raw tc want gotRaw) (enter AtRaw t)
          else enter AtRaw t)"

definition check_json :: "('v, 'o) lib \<Rightarrow> ('v, 'o) testCase \<Rightarrow> bytes \<Rightarrow> 'v T \<Rightarrow> 'v T" where
  "check_json l tc gotRaw t =
     (case expectJSON tc of
        None \<Rightarrow> t
      | Some want \<Rightarrow>
          (case Unmarshal l gotRaw (New_TypeOf l want) of
             (Some err, out) \<Rightarrow> t_Fatal AtJSON (Sprintln [err]) (enter AtJSON t)
           | (None, out) \<Rightarrow>
               (case Diff l want out (outputCmpOpt tc) of
                  Inl p \<Rightarrow> go_panic AtJSON p (enter AtJSON t)
                | Inr d \<Rightarrow>
                    if d \<noteq> [] then fail tc AtJSON (msg_json tc d) (enter AtJSON t)
                    else enter AtJSON t)))"

definition grab :: "('v, 'o) lib \<Rightarrow> ('v, 'o) testCase \<Rightarrow> bytes \<Rightarrow> 'v T \<Rightarrow> 'v T" where
  "grab l tc gotRaw t =
     (case grabOutput tc of
        None \<Rightarrow> t
      | Some p \<Rightarrow>
          (case Unmarshal l gotRaw (heap t p) of
             (Some err, out) \<Rightarrow>
               t_Fatal AtGrab (Sprintln [err]) ((enter AtGrab t)\<lparr>heap := (heap t)(p := out)\<rparr>)
           | (None, out) \<Rightarrow> (enter AtGrab t)\<lparr>heap := (heap t)(p := out)\<rparr>))"

text \<open>What \<open>fn\<close> does once the response has arrived.\<close>

definition before_grab ::
  "('v, 'o) lib \<Rightarrow> ('v, 'o) testCase \<Rightarrow> (string \<times> string) list \<Rightarrow> Response \<Rightarrow> 'v T \<Rightarrow> 'v T" where
  "before_grab l tc kvs resp =
     seq (read_body resp)
    (seq (log_output (fst (resp_Body resp)))
    (seq (check_code tc resp)
    (seq (range_headers l tc resp kvs)
    (seq (check_raw tc (fst (resp_Body resp)))
         (check_json l tc (fst (resp_Body resp)))))))"

definition assertions ::
  "('v, 'o) lib \<Rightarrow> ('v, 'o) testCase \<Rightarrow> (string \<times> string) list \<Rightarrow> Response \<Rightarrow> 'v T \<Rightarrow> 'v T" where
  "assertions l tc kvs resp =
     seq (before_grab l tc kvs resp) (grab l tc (fst (resp_Body resp)))"

definition fn ::
  "('v, 'o) lib \<Rightarrow> ('v, 'o) testCase \<Rightarrow> (string \<times> string) list \<Rightarrow> 'v T \<Rightarrow> 'v T" where
  "fn l tc kvs t =
     (case buildRequest l tc of
        Inl err \<Rightarrow> t_Fatal AtNewRequest (Sprintln [err]) t
      | Inr req \<Rightarrow>
          (case Do (server tc) (jar tc) req of
             Inl err \<Rightarrow> t_Fatal AtDo (Sprintln [err]) t
           | Inr resp \<Rightarrow> assertions l tc kvs resp t))"

definition Test ::
  "('v, 'o) lib \<Rightarrow> Server \<Rightarrow> string \<Rightarrow> string \<Rightarrow> ('v, 'o) TestOption list \<Rightarrow>
     string + ((string \<times> string) list \<Rightarrow> 'v T \<Rightarrow> 'v T)" where
  "Test l s m p opts =
     (case applyOptions opts (newTestCase s m p) of
        Inl panic \<Rightarrow> Inl panic
      | Inr tc \<Rightarrow> Inr (fn l tc))"

text \<open>A fresh \<open>testing.T\<close>: nothing logged, not failed, the caller's variables as given.\<close>

definition newT :: "(nat \<Rightarrow> 'v) \<Rightarrow> 'v T" where
  "newT h = \<lparr>events = [], failed = False, exited = False, heap = h\<rparr>"

text \<open>
  The request that the test function returned by \<open>Test\<close> builds (\<open>Inl\<close>: the panic of an
  option or the error of \<open>http.NewRequest\<close>), and the values it carries for a header.
\<close>

definition Test_request ::
  "('v, 'o) lib \<Rightarrow> Server \<Rightarrow> string \<Rightarrow> string \<Rightarrow> ('v, 'o) TestOption list \<Rightarrow> string + Request" where
  "Test_request l s m p opts =
     (case applyOptions opts (newTestCase s m p) of
        Inl panic \<Rightarrow> Inl panic
      | Inr tc \<Rightarrow> buildRequest l tc)"

definition Header_Values :: "Header \<Rightarrow> string \<Rightarrow> string list" where
  "Header_Values h key = (case h (CanonicalHeaderKey key) of None \<Rightarrow> [] | Some vs \<Rightarrow> vs)"

definition values_of :: "string + Request \<Rightarrow> string \<Rightarrow> string + string list" where
  "values_of r key =
     (case r of Inl err \<Rightarrow> Inl err | Inr req \<Rightarrow> Inr (Header_Values (req_Header req) key))"

definition get_of :: "string + Request \<Rightarrow> string \<Rightarrow> string + string" where
  "get_of r key =
     (case r of Inl err \<Rightarrow> Inl err | Inr req \<Rightarrow> Inr (Header_Get (req_Header req) key))"

section \<open>The comparison options\<close>

text \<open>
  \<open>NotEmpty\<close> and \<open>IgnoreField\<close> are built from \<open>cmp.FilterPath\<close>, \<open>cmp.FilterValues\<close>,
  \<open>cmp.Comparer\<close> and \<open>cmp.Ignore\<close>.  The engine of go-cmp is modelled on Go values that
  are strings, integers and structs with exported fields: at every node of the two values
  it first looks for an applicable option (rule 1) and otherwise compares by kind (rule 3;
  none of these types has an \<open>Equal\<close> method, rule 2).  The two values have the same type,
  as in \<open>fn\<close>, which decodes the response into the type of the expected value.
\<close>

datatype val = VString string | VInt int | VStruct "(string \<times> val) list"

text \<open>\<open>reflect.Zero(reflect.TypeOf(x)).Interface()\<close>.\<close>

fun Zero :: "val \<Rightarrow> val" where
  "Zero (VString s) = VString []"
| "Zero (VInt i) = VInt 0"
| "Zero (VStruct fs) = VStruct (map (\<lambda>(n, v). (n, Zero v)) fs)"

text \<open>
  A path is the list of struct fields from the root; \<open>Path.String\<close> joins the field
  names with dots (the root is the empty string).
\<close>

type_synonym Path = "string list"

definition Path_String :: "Path \<Rightarrow> string" where
  "Path_String p = join_with ''.'' p"

datatype Option =
  FilterPath "Path \<Rightarrow> bool" Option
| FilterValues "val \<Rightarrow> val \<Rightarrow> bool" Option
| Comparer "val \<Rightarrow> val \<Rightarrow> bool"
| Ignore

datatype applicable =
  NoOption | ApplyIgnore | ApplyComparer "val \<Rightarrow> val \<Rightarrow> bool" | Ambiguous

text \<open>A filter passes the node on to the option it wraps, or yields nothing.\<close>

fun option_filter :: "Path \<Rightarrow> val \<Rightarrow> val \<Rightarrow> Option \<Rightarrow> applicable" where
  "option_filter p x y (FilterPath f opt) = (if f p then option_filter p x y opt else NoOption)"
| "option_filter p x y (FilterValues f opt) =
     (if f x y then option_filter p x y opt else NoOption)"
| "option_filter p x y (Comparer f) = ApplyComparer f"
| "option_filter p x y Ignore = ApplyIgnore"

text \<open>
  \<open>Options.filter\<close>: an applicable \<open>Ignore\<close> ends the search; two applicable comparers
  are ambiguous (the engine panics when it applies them).
\<close>

fun Options_filter :: "Path \<Rightarrow> val \<Rightarrow> val \<Rightarrow> applicable \<Rightarrow> Option list \<Rightarrow> applicable" where
  "Options_filter p x y out [] = out"
| "Options_filter p x y out (opt # opts) =
     (case option_filter p x y opt of
        ApplyIgnore \<Rightarrow> ApplyIgnore
      | NoOption \<Rightarrow> Options_filter p x y out opts
      | found \<Rightarrow> Options_filter p x y (case out of NoOption \<Rightarrow> found | _ \<Rightarrow> Ambiguous) opts)"

text \<open>The result is \<open>None\<close> for a panic, and otherwise whether no difference was reported.\<close>

fun compareAny :: "Option list \<Rightarrow> Path \<Rightarrow> val \<Rightarrow> val \<Rightarrow> bool option"
  and compareStruct ::
    "Option list \<Rightarrow> Path \<Rightarrow> (string \<times> val) list \<Rightarrow> (string \<times> val) list \<Rightarrow> bool option" where
  "compareAny opts p x y =
     (case Options_filter p x y NoOption opts of
        ApplyIgnore \<Rightarrow> Some True
      | ApplyComparer f \<Rightarrow> Some (f x y)
      | Ambiguous \<Rightarrow> None
      | NoOption \<Rightarrow>
          (case (x, y) of
             (VString a, VString b) \<Rightarrow> Some (a = b)
           | (VInt a, VInt b) \<Rightarrow> Some (a = b)
           | (VStruct fs, VStruct gs) \<Rightarrow> compareStruct opts p fs gs
           | _ \<Rightarrow> Some False))"
| "compareStruct opts p [] gs = Some (gs = [])"
| "compareStruct opts p ((n, x) # fs) [] = Some False"
| "compareStruct opts p ((n, x) # fs) ((m, y) # gs) =
     (case compareAny opts (p @ [n]) x y of
        None \<Rightarrow> None
      | Some b \<Rightarrow>
          (case compareStruct opts p fs gs of None \<Rightarrow> None | Some c \<Rightarrow> Some (b \<and> c)))"

definition cmp_Equal :: "val \<Rightarrow> val \<Rightarrow> Option list \<Rightarrow> bool option" where
  "cmp_Equal x y opts = compareAny opts [] x y"

definition NotEmpty :: "string \<Rightarrow> Option" where
  "NotEmpty name =
     FilterPath (\<lambda>p. Path_String p = name)
       (FilterValues (\<lambda>x y. x \<noteq> Zero x \<and> y \<noteq> Zero y) (Comparer (\<lambda>x y. True)))"

definition IgnoreField :: "string \<Rightarrow> Option" where
  "IgnoreField name = FilterPath (\<lambda>p. Path_String p = name) Ignore"

section \<open>Sample collaborators for the concrete runs\<close>

text \<open>
  A fragment of \<open>json.Marshal\<close>: a nil interface is \<open>null\<close>, an integer its decimal
  digits, a boolean \<open>true\<close> or \<open>false\<close>, and a \<open>*bytes.Reader\<close> or \<open>*strings.Reader\<close>
  (structs without exported fields) is \<open>{}\<close>.  What a reader of the caller's own type
  marshals to is left to \<open>other\<close>.
\<close>

datatype scalar = GoInt int | GoBool bool

definition json_Marshal :: "(nat \<Rightarrow> string + bytes) \<Rightarrow> scalar any \<Rightarrow> string + bytes" where
  "json_Marshal other x =
     (case x of
        Nil \<Rightarrow> Inr ''null''
      | Reader (BytesReader b) \<Rightarrow> Inr ''{}''
      | Reader (StringsReader s) \<Rightarrow> Inr ''{}''
      | Reader (OtherReader i) \<Rightarrow> other i
      | Val (GoInt n) \<Rightarrow> Inr (itoa n)
      | Val (GoBool b) \<Rightarrow> Inr (if b then ''true'' else ''false''))"

text \<open>
  A library instance in which every method and URL is accepted, the only body that
  decodes is \<open>42\<close>, and two values differ when they are not equal (the comparison
  never panics).
\<close>

definition lib0 :: "(scalar, unit) lib" where
  "lib0 =
     \<lparr>NewRequest_error = (\<lambda>m u. None),
      Unmarshal = (\<lambda>raw target. if raw = ''42'' then (None, GoInt 42)
                                 else (Some ''invalid character'', target)),
      New_TypeOf = (\<lambda>x. GoInt 0),
      Diff = (\<lambda>x y opts. Inr (if x = y then [] else ''differ'')),
      GoSyntax = (\<lambda>h. ''http.Header{}'')\<rparr>"

text \<open>A server that answers every request with the given status, header and body.\<close>

definition answering :: "int \<Rightarrow> Header \<Rightarrow> bytes \<times> string option \<Rightarrow> Server" where
  "answering code h body =
     \<lparr>URL = ''http://127.0.0.1:8080'',
      Do = (\<lambda>j req. Inr \<lparr>StatusCode = code, resp_Header = h, resp_Body = body\<rparr>)\<rparr>"

definition request0 :: Request where
  "request0 = \<lparr>req_Method = ''GET'', req_URL = ''http://127.0.0.1:8080/'',
               req_Header = Map.empty, req_Body = None\<rparr>"

section \<open>Notions used to state properties of a run\<close>

text \<open>
  The statements of \<open>fn\<close> in the order of the source: the request (0), reading the body
  (1), the diagnostic output (2), the status code (3), the expected headers (4), the raw
  body (5), the structured comparison (6) and the capture (7).
\<close>

fun phase :: "site \<Rightarrow> nat" where
  "phase AtNewRequest = 0"
| "phase AtDo = 0"
| "phase AtReadAll = 1"
| "phase AtOutput = 2"
| "phase AtCode = 3"
| "phase (AtHeader k) = 4"
| "phase AtRaw = 5"
| "phase AtJSON = 6"
| "phase AtGrab = 7"

text \<open>The places at which a run recorded an event.\<close>

definition sites :: "'v T \<Rightarrow> site set" where
  "sites t = fst ` set (events t)"

text \<open>
  The events of a run are in the order of the source and none lies beyond statement \<open>n\<close>.
\<close>

definition upto :: "nat \<Rightarrow> 'v T \<Rightarrow> bool" where
  "upto n t = (sorted (map (phase \<circ> fst) (events t)) \<and> list_all (\<lambda>e. phase (fst e) \<le> n) (events t))"

text \<open>
  A statement only appends events, all of them at places in \<open>S\<close>, and it keeps the
  failed and ended marks of the test.
\<close>

definition emits :: "site set \<Rightarrow> ('v T \<Rightarrow> 'v T) \<Rightarrow> bool" where
  "emits S f = (\<forall>t. (\<exists>es. events (f t) = events t @ es \<and> fst ` set es \<subseteq> S)
                   \<and> (failed t \<longrightarrow> failed (f t)) \<and> (exited t \<longrightarrow> exited (f t)))"


text \<open>
  A run ended by \<open>t.Fatal\<close>: the test is marked failed, the test function has ended,
  and the fatal message is the last event.  \<open>aborted_by n\<close> adds that no statement
  beyond statement \<open>n\<close> recorded anything.
\<close>

definition ended_by_Fatal :: "'v T \<Rightarrow> bool" where
  "ended_by_Fatal t =
     (failed t \<and> exited t \<and> events t \<noteq> [] \<and>
      (case snd (last (events t)) of Fatal m \<Rightarrow> True | _ \<Rightarrow> False))"

definition aborted_by :: "nat \<Rightarrow> 'v T \<Rightarrow> bool" where
  "aborted_by n t = (ended_by_Fatal t \<and> list_all (\<lambda>e. phase (fst e) \<le> n) (events t))"

section \<open>The run described step by step\<close>

text \<open>
  The description of the executor names its steps one after the other: read the body,
  log it, then the status code, the expected headers, the raw body, the structured
  comparison and the capture.  The definitions of this section write that description
  down as the list of events each step contributes, independently of the functions
  \<open>read_body\<close> \<dots> \<open>grab\<close> that embed the source; the two are compared below.

  An event ends the test when it is a call of \<open>t.Fatal\<close> or a panic, and it marks the
  test failed when it is a call of \<open>t.Error\<close>, of \<open>t.Fatal\<close> or a panic.
\<close>

fun ending :: "event \<Rightarrow> bool" where
  "ending (s, Fatal m) = True"
| "ending (s, Panic m) = True"
| "ending (s, a) = False"

fun failing :: "event \<Rightarrow> bool" where
  "failing (s, Enter) = False"
| "failing (s, Log m) = False"
| "failing (s, a) = True"

text \<open>
  The events up to and including the first one that ends the test.
\<close>

fun until_end :: "event list \<Rightarrow> event list" where
  "until_end [] = []"
| "until_end (e # es) = (if ending e then [e] else e # until_end es)"

text \<open>
  What \<open>fail\<close> records: \<open>t.Fatalf\<close> under fail-fast, \<open>t.Errorf\<close> otherwise.
\<close>

definition failure :: "('v, 'o) testCase \<Rightarrow> string \<Rightarrow> action" where
  "failure tc = (if fatalFailure tc then Fatal else Error)"

text \<open>
  Reading the body records an error when the read failed; the output is logged in
  every case.
\<close>

definition spec_read :: "Response \<Rightarrow> event list" where
  "spec_read resp =
     (AtReadAll, Enter) #
     (case snd (resp_Body resp) of
        None \<Rightarrow> []
      | Some err \<Rightarrow> [(AtReadAll, Error (Sprintln [''error reading body:'', err]))])"

definition spec_output :: "bytes \<Rightarrow> event list" where
  "spec_output gotRaw = [(AtOutput, Log (Sprintln [''output:'' @ [newline], gotRaw]))]"

text \<open>
  The status code is compared when an expected code is set; a header is compared for
  every expected pair, and a mismatch is followed by the dump of the response header;
  the raw body is compared when an expected raw body is set.
\<close>

definition spec_status :: "('v, 'o) testCase \<Rightarrow> Response \<Rightarrow> event list" where
  "spec_status tc resp =
     (if expectCode tc = 0 then []
      else (AtCode, Enter) #
           (if StatusCode resp = expectCode tc then []
            else [(AtCode, failure tc (msg_code tc (StatusCode resp)))]))"

definition spec_header ::
  "('v, 'o) lib \<Rightarrow> ('v, 'o) testCase \<Rightarrow> Response \<Rightarrow> string \<times> string \<Rightarrow> event list" where
  "spec_header l tc resp kv =
     (AtHeader (fst kv), Enter) #
     (if Header_Get (resp_Header resp) (fst kv) = snd kv then []
      else [(AtHeader (fst kv),
              failure tc (msg_header tc (fst kv) (snd kv) (Header_Get (resp_Header resp) (fst kv)))),
            (AtHeader (fst kv), Log (''header dump: '' @ GoSyntax l (resp_Header resp)))])"

definition spec_raw :: "('v, 'o) testCase \<Rightarrow> bytes \<Rightarrow> event list" where
  "spec_raw tc gotRaw =
     (case expectRaw tc of
        None \<Rightarrow> []
      | Some want \<Rightarrow>
          (AtRaw, Enter) #
          (if want = gotRaw then [] else [(AtRaw, failure tc (msg_raw tc want gotRaw))]))"

text \<open>
  The structured comparison decodes the body (a failure is fatal whatever the flag),
  then compares; the comparison may panic, and a non-empty difference is reported
  through \<open>fail\<close>.  The capture decodes the body into the target; a failure is fatal.
\<close>

definition spec_structured :: "('v, 'o) lib \<Rightarrow> ('v, 'o) testCase \<Rightarrow> bytes \<Rightarrow> event list" where
  "spec_structured l tc gotRaw =
     (case expectJSON tc of
        None \<Rightarrow> []
      | Some want \<Rightarrow>
          (AtJSON, Enter) #
          (case Unmarshal l gotRaw (New_TypeOf l want) of
             (Some err, out) \<Rightarrow> [(AtJSON, Fatal (Sprintln [err]))]
           | (None, out) \<Rightarrow>
               (case Diff l want out (outputCmpOpt tc) of
                  Inl p \<Rightarrow> [(AtJSON, Panic p)]
                | Inr d \<Rightarrow> if d = [] then [] else [(AtJSON, failure tc (msg_json tc d))])))"

definition spec_capture ::
  "('v, 'o) lib \<Rightarrow> ('v, 'o) testCase \<Rightarrow> bytes \<Rightarrow> (nat \<Rightarrow> 'v) \<Rightarrow> event list" where
  "spec_capture l tc gotRaw h =
     (case grabOutput tc of
        None \<Rightarrow> []
      | Some p \<Rightarrow>
          (AtGrab, Enter) #
          (case fst (Unmarshal l gotRaw (h p)) of
             None \<Rightarrow> []
           | Some err \<Rightarrow> [(AtGrab, Fatal (Sprintln [err]))]))"

text \<open>
  The steps before the capture in their fixed order, the whole run (cut at the first
  event that ends the test), and the store after the run: the capture target holds the
  decoded body unless a step before the capture ended the test.
\<close>

definition spec_checks ::
  "('v, 'o) lib \<Rightarrow> ('v, 'o) testCase \<Rightarrow> (string \<times> string) list \<Rightarrow> Response \<Rightarrow> event list" where
  "spec_checks l tc kvs resp =
     spec_read resp @ spec_output (fst (resp_Body resp)) @ spec_status tc resp @
     concat (map (spec_header l tc resp) kvs) @ spec_raw tc (fst (resp_Body resp)) @
     spec_structured l tc (fst (resp_Body resp))"

definition spec_run ::
  "('v, 'o) lib \<Rightarrow> ('v, 'o) testCase \<Rightarrow> (string \<times> string) list \<Rightarrow> Response \<Rightarrow> (nat \<Rightarrow> 'v) \<Rightarrow>
     event list" where
  "spec_run l tc kvs resp h =
     until_end (spec_checks l tc kvs resp @ spec_capture l tc (fst (resp_Body resp)) h)"

definition spec_heap ::
  "('v, 'o) lib \<Rightarrow> ('v, 'o) testCase \<Rightarrow> (string \<times> string) list \<Rightarrow> Response \<Rightarrow> (nat \<Rightarrow> 'v) \<Rightarrow>
     nat \<Rightarrow> 'v" where
  "spec_heap l tc kvs resp h =
     (case grabOutput tc of
        None \<Rightarrow> h
      | Some p \<Rightarrow>
          if list_ex ending (spec_checks l tc kvs resp) then h
          else h(p := snd (Unmarshal l (fst (resp_Body resp)) (h p))))"

text \<open>
  A statement of the embedded source \<^emph>\<open>runs\<close> a list of events: started in a test that
  has not ended, it appends these events up to the first that ends the test, ends the
  test exactly when one of them does, marks it failed exactly when a recorded one does,
  and leaves the store alone.
\<close>

definition runs :: "('v T \<Rightarrow> 'v T) \<Rightarrow> event list \<Rightarrow> bool" where
  "runs f es =
     (\<forall>t. \<not> exited t \<longrightarrow>
        events (f t) = events t @ until_end es
      \<and> exited (f t) = list_ex ending es
      \<and> failed (f t) = (failed t \<or> list_ex failing (until_end es))
      \<and> heap (f t) = heap t)"

text \<open>
  One of the four comparisons governed by the fail-fast flag found a mismatch (status
  code, a header, the raw body, a non-empty structured difference), and the structured
  step ends the test by itself (its decode fails or its comparison panics).
\<close>

definition mismatch ::
  "('v, 'o) lib \<Rightarrow> ('v, 'o) testCase \<Rightarrow> (string \<times> string) list \<Rightarrow> Response \<Rightarrow> bool" where
  "mismatch l tc kvs resp =
     ((expectCode tc \<noteq> 0 \<and> StatusCode resp \<noteq> expectCode tc)
      \<or> list_ex (\<lambda>kv. Header_Get (resp_Header resp) (fst kv) \<noteq> snd kv) kvs
      \<or> (case expectRaw tc of None \<Rightarrow> False | Some want \<Rightarrow> want \<noteq> fst (resp_Body resp))
      \<or> (case expectJSON tc of
            None \<Rightarrow> False
          | Some want \<Rightarrow>
              (case Unmarshal l (fst (resp_Body resp)) (New_TypeOf l want) of
                 (Some err, out) \<Rightarrow> False
               | (None, out) \<Rightarrow>
                   (case Diff l want out (outputCmpOpt tc) of
                      Inl p \<Rightarrow> False
                    | Inr d \<Rightarrow> d \<noteq> []))))"

definition structured_ends :: "('v, 'o) lib \<Rightarrow> ('v, 'o) testCase \<Rightarrow> bytes \<Rightarrow> bool" where
  "structured_ends l tc gotRaw =
     (case expectJSON tc of
        None \<Rightarrow> False
      | Some want \<Rightarrow>
          (case Unmarshal l gotRaw (New_TypeOf l want) of
             (Some err, out) \<Rightarrow> True
           | (None, out) \<Rightarrow>
               (case Diff l want out (outputCmpOpt tc) of Inl p \<Rightarrow> True | Inr d \<Rightarrow> False)))"


section \<open>Request headers and bodies set by the options\<close>

lemma Values_Encode_name_greg: "Values_Encode [(''name'', [''greg''])] = ''name=greg''"
  by code_simp

lemma Canonical_Content_Type: "CanonicalHeaderKey ''Content-Type'' = ''Content-Type''"
  by code_simp

lemma Canonical_lower_content_type: "CanonicalHeaderKey ''content-type'' = ''Content-Type''"
  by code_simp

lemma Canonical_X_Test: "CanonicalHeaderKey ''x-test'' = ''X-Test''"
  by code_simp

lemma setContentType_header:
  "req_Header (setContentType v r) = (req_Header r)(''Content-Type'' \<mapsto> [v])"
  by (simp add: setContentType_def Header_Set_def Canonical_Content_Type)

lemma Header_Get_upd: "Header_Get (h(CanonicalHeaderKey k \<mapsto> [v])) k = v"
  by (simp add: Header_Get_def)

lemma buildRequest_snoc:
  "buildRequest l (tc\<lparr>mutateReq := mutateReq tc @ [m]\<rparr>) =
     (case buildRequest l tc of Inl err \<Rightarrow> Inl err | Inr req \<Rightarrow> Inr (m req))"
  by (simp add: buildRequest_def split: sum.splits)

lemma buildRequest_snoc2:
  "buildRequest l (tc\<lparr>mutateReq := mutateReq tc @ [m1, m2]\<rparr>) =
     (case buildRequest l tc of Inl err \<Rightarrow> Inl err | Inr req \<Rightarrow> Inr (m2 (m1 req)))"
  by (simp add: buildRequest_def split: sum.splits)

lemma buildRequest_input:
  "buildRequest l (tc\<lparr>input := i, mutateReq := mutateReq tc @ [m]\<rparr>) =
     (case buildRequest l (tc\<lparr>input := i\<rparr>) of Inl err \<Rightarrow> Inl err | Inr req \<Rightarrow> Inr (m req))"
  by (simp add: buildRequest_def split: sum.splits)

lemma headerMutator_Content_Type:
  "CanonicalHeaderKey name = ''Content-Type'' \<Longrightarrow>
     req_Header (headerMutator name v r) = (req_Header r)(''Content-Type'' \<mapsto> [v])"
  by (simp add: headerMutator_def Header_Set_def)

lemma headerMutator_other:
  "CanonicalHeaderKey name \<noteq> ''Content-Type'' \<Longrightarrow>
     req_Header (headerMutator name v r) =
       (req_Header r)(CanonicalHeaderKey name \<mapsto> Header_Values (req_Header r) name @ [v])"
  by (simp add: headerMutator_def Header_Add_def Header_Values_def Let_def)

lemma headerMutator_other_twice:
  assumes "CanonicalHeaderKey name \<noteq> ''Content-Type''"
  shows "Header_Values (req_Header (headerMutator name v2 (headerMutator name v1 r))) name =
           Header_Values (req_Header r) name @ [v1, v2]"
  by (simp add: headerMutator_other [OF assms] Header_Values_def)

lemma WithHeader_twice:
  "applyOptions [WithHeader name v1, WithHeader name v2] tc =
     Inr (tc\<lparr>mutateReq := mutateReq tc @ [headerMutator name v1, headerMutator name v2]\<rparr>)"
  by (simp add: WithHeader_def)

lemma buildRequest_newTestCase:
  "buildRequest lib0 (newTestCase s m p) =
     Inr \<lparr>req_Method = (if m = [] then ''GET'' else m), req_URL = URL s @ p,
          req_Header = Map.empty, req_Body = None\<rparr>"
  by (simp add: buildRequest_def NewRequest_def lib0_def newTestCase_def)

text \<open>
  Claim C6.  Applying \<open>WithFormInput\<close> with the map \<open>{"name": ["greg"]}\<close> sets the body of
  the test case to a reader over exactly \<open>name=greg\<close> and queues, after the mutators
  already there, a mutator that sets the Content-Type header of the request to
  \<open>application/x-www-form-urlencoded\<close>.
\<close>

theorem WithFormInput_name_greg:
  "WithFormInput [(''name'', [''greg''])] tc =
     Inr (tc\<lparr>input := Some (StringsReader ''name=greg''),
             mutateReq := mutateReq tc @ [setContentType ''application/x-www-form-urlencoded'']\<rparr>)
   \<and> req_Header (setContentType ''application/x-www-form-urlencoded'' r) ''Content-Type''
       = Some [''application/x-www-form-urlencoded'']
   \<and> Header_Get (req_Header (setContentType ''application/x-www-form-urlencoded'' r)) ''Content-Type''
       = ''application/x-www-form-urlencoded''"
  using Header_Get_upd [of "req_Header r" "''Content-Type''"]
  by (simp add: WithFormInput_def Values_Encode_name_greg setContentType_header Canonical_Content_Type)

theorem WithFormInput_name_greg_witness:
  "WithFormInput [(''name'', [''greg''])]
     (newTestCase (answering 200 Map.empty ([], None)) ''POST'' ''/greet'' :: (scalar, unit) testCase) =
     Inr ((newTestCase (answering 200 Map.empty ([], None)) ''POST'' ''/greet'')
            \<lparr>input := Some (StringsReader ''name=greg''),
             mutateReq := mutateReq (newTestCase (answering 200 Map.empty ([], None)) ''POST'' ''/greet'' :: (scalar, unit) testCase)
                @ [setContentType ''application/x-www-form-urlencoded'']\<rparr>)
   \<and> req_Header (setContentType ''application/x-www-form-urlencoded'' request0) ''Content-Type''
       = Some [''application/x-www-form-urlencoded'']
   \<and> Header_Get (req_Header (setContentType ''application/x-www-form-urlencoded'' request0)) ''Content-Type''
       = ''application/x-www-form-urlencoded''"
  by (rule WithFormInput_name_greg)

text \<open>
  Claim C9.  \<open>WithHeader\<close> queues a mutator that replaces the header only when the name
  canonicalises to Content-Type and appends the value for every other name; so applying
  \<open>WithHeader\<close> twice with the same other name yields a request carrying, after the
  values it had, both supplied values in the order of application.
\<close>

theorem WithHeader_replaces_only_Content_Type:
  "WithHeader name v tc = Inr (tc\<lparr>mutateReq := mutateReq tc @ [headerMutator name v]\<rparr>)
   \<and> (CanonicalHeaderKey name = ''Content-Type'' \<longrightarrow>
        req_Header (headerMutator name v r) = (req_Header r)(''Content-Type'' \<mapsto> [v]))
   \<and> (CanonicalHeaderKey name \<noteq> ''Content-Type'' \<longrightarrow>
        req_Header (headerMutator name v r) =
          (req_Header r)(CanonicalHeaderKey name \<mapsto> Header_Values (req_Header r) name @ [v]))
   \<and> (CanonicalHeaderKey name \<noteq> ''Content-Type'' \<and> buildRequest l tc = Inr r \<longrightarrow>
        (\<exists>tc' r'. applyOptions [WithHeader name v1, WithHeader name v2] tc = Inr tc'
           \<and> buildRequest l tc' = Inr r'
           \<and> Header_Values (req_Header r') name = Header_Values (req_Header r) name @ [v1, v2]))"
proof (intro conjI impI)
  show "WithHeader name v tc = Inr (tc\<lparr>mutateReq := mutateReq tc @ [headerMutator name v]\<rparr>)"
    by (simp add: WithHeader_def)
next
  assume "CanonicalHeaderKey name = ''Content-Type''"
  then show "req_Header (headerMutator name v r) = (req_Header r)(''Content-Type'' \<mapsto> [v])"
    by (rule headerMutator_Content_Type)
next
  assume "CanonicalHeaderKey name \<noteq> ''Content-Type''"
  then show "req_Header (headerMutator name v r) =
          (req_Header r)(CanonicalHeaderKey name \<mapsto> Header_Values (req_Header r) name @ [v])"
    by (rule headerMutator_other)
next
  assume h: "CanonicalHeaderKey name \<noteq> ''Content-Type'' \<and> buildRequest l tc = Inr r"
  let ?tc = "tc\<lparr>mutateReq := mutateReq tc @ [headerMutator name v1, headerMutator name v2]\<rparr>"
  have "applyOptions [WithHeader name v1, WithHeader name v2] tc = Inr ?tc"
    by (rule WithHeader_twice)
  moreover have "buildRequest l ?tc = Inr (headerMutator name v2 (headerMutator name v1 r))"
    using h by (simp add: buildRequest_snoc2)
  moreover have "Header_Values (req_Header (headerMutator name v2 (headerMutator name v1 r))) name =
      Header_Values (req_Header r) name @ [v1, v2]"
    using h by (simp add: headerMutator_other_twice)
  ultimately show "\<exists>tc' r'. applyOptions [WithHeader name v1, WithHeader name v2] tc = Inr tc'
           \<and> buildRequest l tc' = Inr r'
           \<and> Header_Values (req_Header r') name = Header_Values (req_Header r) name @ [v1, v2]"
    by blast
qed

lemma Canonical_X_Test_upper: "CanonicalHeaderKey ''X-Test'' = ''X-Test''"
  by code_simp

lemma Canonical_X_Test_ne: "CanonicalHeaderKey ''x-test'' \<noteq> ''Content-Type''"
  by (simp add: Canonical_X_Test)

theorem WithHeader_replaces_only_Content_Type_witness:
  "CanonicalHeaderKey ''content-type'' = ''Content-Type''
   \<and> req_Header (headerMutator ''content-type'' ''text/plain''
         (request0\<lparr>req_Header := [''Content-Type'' \<mapsto> [''application/json'']]\<rparr>))
       = [''Content-Type'' \<mapsto> [''text/plain'']]
   \<and> CanonicalHeaderKey ''x-test'' \<noteq> ''Content-Type''
   \<and> values_of (Test_request lib0 (answering 200 Map.empty ([], None)) ''GET'' ''/''
         [WithHeader ''x-test'' ''a'', WithHeader ''x-test'' ''b'']) ''X-Test'' = Inr [''a'', ''b'']"
proof -
  let ?tc = "newTestCase (answering 200 Map.empty ([], None)) ''GET'' ''/'' :: (scalar, unit) testCase"
  let ?r = "\<lparr>req_Method = ''GET'', req_URL = ''http://127.0.0.1:8080/'',
             req_Header = Map.empty, req_Body = None\<rparr>"
  have b: "buildRequest lib0 ?tc = Inr ?r"
    by (simp add: buildRequest_newTestCase answering_def)
  have "req_Header (headerMutator ''content-type'' ''text/plain''
         (request0\<lparr>req_Header := [''Content-Type'' \<mapsto> [''application/json'']]\<rparr>))
       = [''Content-Type'' \<mapsto> [''text/plain'']]"
    using WithHeader_replaces_only_Content_Type [of "''content-type''" "''text/plain''" ?tc
        "request0\<lparr>req_Header := [''Content-Type'' \<mapsto> [''application/json'']]\<rparr>"]
    by (simp add: Canonical_lower_content_type)
  moreover have "values_of (Test_request lib0 (answering 200 Map.empty ([], None)) ''GET'' ''/''
         [WithHeader ''x-test'' ''a'', WithHeader ''x-test'' ''b'']) ''X-Test'' = Inr [''a'', ''b'']"
  proof -
    from WithHeader_replaces_only_Content_Type [of "''x-test''" "''a''" ?tc ?r lib0 "''a''" "''b''"]
    have "CanonicalHeaderKey ''x-test'' \<noteq> ''Content-Type'' \<and> buildRequest lib0 ?tc = Inr ?r \<longrightarrow>
        (\<exists>tc' r'. applyOptions [WithHeader ''x-test'' ''a'', WithHeader ''x-test'' ''b''] ?tc = Inr tc'
           \<and> buildRequest lib0 tc' = Inr r'
           \<and> Header_Values (req_Header r') ''x-test'' = Header_Values (req_Header ?r) ''x-test'' @ [''a'', ''b''])"
      by (elim conjE)
    with Canonical_X_Test_ne b obtain tc' r' where
      1: "applyOptions [WithHeader ''x-test'' ''a'', WithHeader ''x-test'' ''b''] ?tc = Inr tc'" and
      2: "buildRequest lib0 tc' = Inr r'" and
      3: "Header_Values (req_Header r') ''x-test'' = Header_Values (req_Header ?r) ''x-test'' @ [''a'', ''b'']"
      by blast
    have "Test_request lib0 (answering 200 Map.empty ([], None)) ''GET'' ''/''
         [WithHeader ''x-test'' ''a'', WithHeader ''x-test'' ''b''] = Inr r'"
      unfolding Test_request_def by (simp only: 1 2 sum.case)
    moreover have "Header_Values (req_Header r') ''X-Test'' = [''a'', ''b'']"
      using 3 by (simp add: Header_Values_def Canonical_X_Test Canonical_X_Test_upper)
    ultimately show ?thesis
      by (simp add: values_of_def)
  qed
  ultimately show ?thesis
    by (simp add: Canonical_lower_content_type Canonical_X_Test_ne)
qed

section \<open>The JSON body option\<close>

text \<open>
  \<open>WithJSONInput\<close> never reads its argument: the body depends on the reader already in the
  test case only.
\<close>

lemma WithJSONInput_argument_unused:
  "WithJSONInput marshal x tc = WithJSONInput marshal y tc"
  by (simp add: WithJSONInput_def)

text \<open>
  Claim C1 says that the body becomes the JSON serialisation of the option's argument.
  On a fresh test case the option called with the integer 42 yields the body \<open>null\<close>,
  the serialisation of the nil reader stored in the test case, whereas the argument
  serialises to \<open>42\<close>.  The Content-Type mutator is queued as the claim says.
\<close>

theorem WithJSONInput_marshals_stored_reader:
  "WithJSONInput (json_Marshal other) (Val (GoInt 42)) (newTestCase s m p) =
     Inr ((newTestCase s m p)
            \<lparr>input := Some (BytesReader ''null''),
             mutateReq := [setContentType ''application/json'']\<rparr>)
   \<and> json_Marshal other (Val (GoInt 42)) = Inr ''42''"
proof -
  have "itoa 42 = ''42''" by code_simp
  then show ?thesis
    by (simp add: WithJSONInput_def json_Marshal_def newTestCase_def reader_any_def)
qed

section \<open>The order of header mutators\<close>

lemma applyOptions_two:
  "applyOptions [o1, o2] tc = Inr tc' \<Longrightarrow> \<exists>tc1. o1 tc = Inr tc1 \<and> o2 tc1 = Inr tc'"
  by (auto split: sum.splits)

lemma buildRequest_last_setContentType:
  assumes "buildRequest l (tc\<lparr>input := i, mutateReq := mutateReq tc @ [setContentType v]\<rparr>) = Inr req"
  shows "req_Header req ''Content-Type'' = Some [v]"
  using assms by (auto simp add: buildRequest_input setContentType_header split: sum.splits)

lemma buildRequest_last_headerMutator:
  assumes "buildRequest l (tc\<lparr>mutateReq := mutateReq tc @ [headerMutator name v]\<rparr>) = Inr req"
    and "CanonicalHeaderKey name = ''Content-Type''"
  shows "req_Header req ''Content-Type'' = Some [v]"
  using assms by (auto simp add: buildRequest_snoc headerMutator_Content_Type split: sum.splits)

lemma Header_Get_single:
  "h ''Content-Type'' = Some [v] \<Longrightarrow> Header_Get h ''Content-Type'' = v"
  by (simp add: Header_Get_def Canonical_Content_Type)

text \<open>
  Claim C2, amended.  For all options \<open>o1\<close> and \<open>o2\<close> applied in that order, if \<open>o2\<close>
  queues a mutator for the Content-Type header (\<open>WithHeader\<close> with a name that
  canonicalises to Content-Type, \<open>WithFormInput\<close> or \<open>WithJSONInput\<close>), then the request
  built by the executor carries exactly the value of \<open>o2\<close> for Content-Type.
\<close>

theorem last_Content_Type_mutator_wins:
  assumes o2: "(o2 = WithHeader name v \<and> CanonicalHeaderKey name = ''Content-Type'')
         \<or> (o2 = WithFormInput vals \<and> v = ''application/x-www-form-urlencoded'')
         \<or> (o2 = WithJSONInput marshal x \<and> v = ''application/json'')"
    and ap: "applyOptions [o1, o2] tc = Inr tc'"
    and br: "buildRequest l tc' = Inr req"
  shows "req_Header req ''Content-Type'' = Some [v] \<and> Header_Get (req_Header req) ''Content-Type'' = v"
proof -
  from ap obtain tc1 where 1: "o1 tc = Inr tc1" and 2: "o2 tc1 = Inr tc'"
    using applyOptions_two by blast
  have "req_Header req ''Content-Type'' = Some [v]"
    using o2
  proof (elim disjE conjE)
    assume "o2 = WithHeader name v" and c: "CanonicalHeaderKey name = ''Content-Type''"
    with 2 have "tc' = tc1\<lparr>mutateReq := mutateReq tc1 @ [headerMutator name v]\<rparr>"
      by (simp add: WithHeader_def)
    with br c show ?thesis
      using buildRequest_last_headerMutator by blast
  next
    assume "o2 = WithFormInput vals" and v: "v = ''application/x-www-form-urlencoded''"
    with 2 have "tc' = tc1\<lparr>input := Some (StringsReader (Values_Encode vals)),
        mutateReq := mutateReq tc1 @ [setContentType v]\<rparr>"
      by (simp add: WithFormInput_def)
    with br show ?thesis
      using buildRequest_last_setContentType by blast
  next
    assume "o2 = WithJSONInput marshal x" and v: "v = ''application/json''"
    with 2 obtain raw where "tc' = tc1\<lparr>input := Some (BytesReader raw),
        mutateReq := mutateReq tc1 @ [setContentType v]\<rparr>"
      by (auto simp add: WithJSONInput_def split: sum.splits)
    with br show ?thesis
      using buildRequest_last_setContentType by blast
  qed
  then show ?thesis
    by (simp add: Header_Get_single)
qed

lemma Canonical_X_Trace: "CanonicalHeaderKey ''X-Trace'' = ''X-Trace''"
  by code_simp

text \<open>
  Claim C2 as stated, for every header key, fails: two \<open>WithHeader\<close> options on the key
  X-Trace leave both values in the request, and \<open>Header.Get\<close> returns the first one.
\<close>

theorem later_WithHeader_does_not_replace_counterexample:
  "get_of (Test_request lib0 (answering 200 Map.empty ([], None)) ''GET'' ''/''
       [WithHeader ''X-Trace'' ''first'', WithHeader ''X-Trace'' ''second'']) ''X-Trace'' = Inr ''first''
   \<and> values_of (Test_request lib0 (answering 200 Map.empty ([], None)) ''GET'' ''/''
       [WithHeader ''X-Trace'' ''first'', WithHeader ''X-Trace'' ''second'']) ''X-Trace''
         = Inr [''first'', ''second'']"
  by (simp add: Test_request_def WithHeader_def buildRequest_snoc2 buildRequest_newTestCase
      get_of_def values_of_def headerMutator_def Canonical_X_Trace Header_Add_def Header_Get_def
      Header_Values_def)

theorem last_Content_Type_mutator_wins_witness:
  "get_of (Test_request lib0 (answering 200 Map.empty ([], None)) ''POST'' ''/greet''
       [WithFormInput [(''name'', [''greg''])], WithHeader ''content-type'' ''text/plain''])
       ''Content-Type'' = Inr ''text/plain''"
proof -
  let ?s = "answering 200 Map.empty ([], None)"
  let ?tc = "newTestCase ?s ''POST'' ''/greet'' :: (scalar, unit) testCase"
  let ?opts = "[WithFormInput [(''name'', [''greg''])], WithHeader ''content-type'' ''text/plain'']"
  obtain tc' where 1: "applyOptions ?opts ?tc = Inr tc'"
    by (simp add: WithFormInput_def WithHeader_def)
  obtain req where 2: "buildRequest lib0 tc' = Inr req"
    using 1 by (auto simp add: WithFormInput_def WithHeader_def buildRequest_def NewRequest_def lib0_def)
  have "Header_Get (req_Header req) ''Content-Type'' = ''text/plain''"
    using last_Content_Type_mutator_wins [of "WithHeader ''content-type'' ''text/plain''"
        "''content-type''" "''text/plain''" undefined undefined undefined
        "WithFormInput [(''name'', [''greg''])]" ?tc tc' lib0 req] 1 2
    by (simp add: Canonical_lower_content_type)
  then show ?thesis
    unfolding Test_request_def get_of_def by (simp only: 1 2 sum.case)
qed

section \<open>The non-empty comparison option\<close>

text \<open>
  On a string field, \<open>NotEmpty\<close> on that field reports equal when both strings are
  non-empty, and otherwise leaves the decision to the ordinary comparison.
\<close>

lemma NotEmpty_string_field:
  assumes "name \<noteq> []"
  shows "cmp_Equal (VStruct [(name, VString a)]) (VStruct [(name, VString b)]) [NotEmpty name] =
           Some ((a \<noteq> [] \<and> b \<noteq> []) \<or> a = b)"
  using assms by (auto simp add: cmp_Equal_def NotEmpty_def Path_String_def)

text \<open>
  Claim C7 (values compare equal exactly when each differs from the zero value of its
  type).  The two examples of the claim hold, but two empty strings, both the zero value,
  compare equal under \<open>NotEmpty\<close>: the value filter does not apply and the engine falls
  back to ordinary equality.
\<close>

theorem NotEmpty_passes_two_zero_values:
  "cmp_Equal (VStruct [(''ID'', VString '''')]) (VStruct [(''ID'', VString '''')]) [NotEmpty ''ID'']
     = Some True
   \<and> Zero (VString '''') = VString ''''
   \<and> cmp_Equal (VStruct [(''ID'', VString ''x'')]) (VStruct [(''ID'', VString ''y'')]) [NotEmpty ''ID'']
     = Some True
   \<and> cmp_Equal (VStruct [(''ID'', VString '''')]) (VStruct [(''ID'', VString ''y'')]) [NotEmpty ''ID'']
     = Some False"
  by (simp add: cmp_Equal_def NotEmpty_def Path_String_def)

section \<open>The raw body expectation\<close>





section \<open>Runs of the executor\<close>

lemma emit_simps [simp]:
  "events (emit s a t) = events t @ [(s, a)]" "failed (emit s a t) = failed t"
  "exited (emit s a t) = exited t" "heap (emit s a t) = heap t"
  by (simp_all add: emit_def)

lemma enter_simps [simp]:
  "events (enter s t) = events t @ [(s, Enter)]" "failed (enter s t) = failed t"
  "exited (enter s t) = exited t" "heap (enter s t) = heap t"
  by (simp_all add: enter_def)

lemma t_Log_simps [simp]:
  "events (t_Log s m t) = events t @ [(s, Log m)]" "failed (t_Log s m t) = failed t"
  "exited (t_Log s m t) = exited t" "heap (t_Log s m t) = heap t"
  by (simp_all add: t_Log_def)

lemma t_Error_simps [simp]:
  "events (t_Error s m t) = events t @ [(s, Error m)]" "failed (t_Error s m t) = True"
  "exited (t_Error s m t) = exited t" "heap (t_Error s m t) = heap t"
  by (simp_all add: t_Error_def)

lemma t_Fatal_simps [simp]:
  "events (t_Fatal s m t) = events t @ [(s, Fatal m)]" "failed (t_Fatal s m t) = True"
  "exited (t_Fatal s m t) = True" "heap (t_Fatal s m t) = heap t"
  by (simp_all add: t_Fatal_def)

lemma go_panic_simps [simp]:
  "events (go_panic s m t) = events t @ [(s, Panic m)]" "failed (go_panic s m t) = True"
  "exited (go_panic s m t) = True" "heap (go_panic s m t) = heap t"
  by (simp_all add: go_panic_def)

lemma newT_simps [simp]:
  "events (newT h) = []" "failed (newT h) = False" "exited (newT h) = False" "heap (newT h) = h"
  by (simp_all add: newT_def)

lemma seq_exited: "exited (f t) \<Longrightarrow> seq f g t = f t"
  by (simp add: seq_def)

lemma seq_running: "\<not> exited (f t) \<Longrightarrow> seq f g t = g (f t)"
  by (simp add: seq_def)

lemma seq_assoc: "seq (seq f g) h = seq f (seq g h)"
  by (rule ext) (simp add: seq_def Let_def)

lemma emitsI:
  assumes "\<And>t. \<exists>es. events (f t) = events t @ es \<and> fst ` set es \<subseteq> S"
    and "\<And>t. failed t \<Longrightarrow> failed (f t)" and "\<And>t. exited t \<Longrightarrow> exited (f t)"
  shows "emits S f"
  using assms by (simp add: emits_def)

lemma emits_events:
  "emits S f \<Longrightarrow> \<exists>es. events (f t) = events t @ es \<and> fst ` set es \<subseteq> S"
  by (simp add: emits_def)

lemma emits_mono: "emits S f \<Longrightarrow> S \<subseteq> S' \<Longrightarrow> emits S' f"
  unfolding emits_def by (meson subset_trans)

lemma emits_id: "emits {} (\<lambda>t. t)"
  by (simp add: emits_def)

lemma emits_seq:
  assumes f: "emits S f" and g: "emits S' g"
  shows "emits (S \<union> S') (seq f g)"
proof (rule emitsI)
  fix t :: "'a T"
  from f obtain es where es: "events (f t) = events t @ es" "fst ` set es \<subseteq> S"
    using emits_events by blast
  show "\<exists>es. events (seq f g t) = events t @ es \<and> fst ` set es \<subseteq> S \<union> S'"
  proof (cases "exited (f t)")
    case True
    then show ?thesis using es by (auto simp add: seq_exited)
  next
    case False
    from g obtain es' where es': "events (g (f t)) = events (f t) @ es'" "fst ` set es' \<subseteq> S'"
      using emits_events by blast
    have "events (seq f g t) = events t @ (es @ es')"
      using False es es' by (simp add: seq_running)
    moreover have "fst ` set (es @ es') \<subseteq> S \<union> S'"
      using es es' by auto
    ultimately show ?thesis by blast
  qed
next
  fix t :: "'a T" assume "failed t"
  then show "failed (seq f g t)"
    using f g by (simp add: seq_def Let_def emits_def)
next
  fix t :: "'a T" assume "exited t"
  then show "exited (seq f g t)"
    using f g by (simp add: seq_def Let_def emits_def)
qed

lemma emits_member:
  "emits S f \<Longrightarrow> e \<in> set (events t) \<Longrightarrow> e \<in> set (events (f t))"
  using emits_events [of S f t] by auto

lemma emits_sites: "emits S f \<Longrightarrow> sites (f t) \<subseteq> sites t \<union> S"
  using emits_events [of S f t] by (fastforce simp add: sites_def)

lemma emits_upto:
  assumes "emits S f" and "\<And>s. s \<in> S \<Longrightarrow> phase s = n" and "m \<le> n" and "upto m t"
  shows "upto n (f t)"
proof -
  from assms(1) obtain es where es: "events (f t) = events t @ es" "fst ` set es \<subseteq> S"
    using emits_events by blast
  have ph: "\<And>e. e \<in> set es \<Longrightarrow> phase (fst e) = n"
    using es(2) assms(2) by auto
  have "sorted (map (phase \<circ> fst) es)"
    using ph by (induction es) auto
  moreover have "\<And>e. e \<in> set (events t) \<Longrightarrow> phase (fst e) \<le> m"
    using assms(4) by (simp add: upto_def list_all_iff)
  ultimately show ?thesis
    using assms(3,4) ph es(1)
    by (fastforce simp add: upto_def list_all_iff sorted_append)
qed

lemma upto_mono: "upto m t \<Longrightarrow> m \<le> n \<Longrightarrow> upto n t"
  by (auto simp add: upto_def list_all_iff)

lemma upto_seq:
  assumes "\<And>t. upto a t \<Longrightarrow> upto b (f t)" and "\<And>t. upto b t \<Longrightarrow> upto c (g t)"
    and "b \<le> c" and "upto a t"
  shows "upto c (seq f g t)"
  using assms by (cases "exited (f t)") (auto simp add: seq_exited seq_running intro: upto_mono)

lemma emits_read_body: "emits {AtReadAll} (read_body resp)"
  by (rule emitsI) (auto simp add: read_body_def split: option.splits)

lemma emits_log_output: "emits {AtOutput} (log_output raw)"
  by (rule emitsI) (auto simp add: log_output_def)

lemma emits_fail: "emits {s} (fail tc s m)"
  by (rule emitsI) (auto simp add: fail_def)

lemma emits_check_code:
  "emits (if expectCode tc = 0 then {} else {AtCode}) (check_code tc resp)"
  by (rule emitsI) (auto simp add: check_code_def fail_def)

lemma emits_check_header: "emits {AtHeader k} (check_header l tc resp k v)"
  by (rule emitsI) (auto simp add: check_header_def fail_def seq_def Let_def)

lemma emits_range_headers:
  "emits (AtHeader ` fst ` set kvs) (range_headers l tc resp kvs)"
proof (induction kvs)
  case Nil
  have "range_headers l tc resp [] = (\<lambda>t. t)" by (rule ext) simp
  then show ?case by (simp add: emits_id)
next
  case (Cons kv kvs)
  obtain k v where kv: "kv = (k, v)" by (cases kv)
  have "range_headers l tc resp (kv # kvs) =
      seq (check_header l tc resp k v) (range_headers l tc resp kvs)"
    by (rule ext) (simp add: kv)
  moreover have "emits ({AtHeader k} \<union> AtHeader ` fst ` set kvs)
      (seq (check_header l tc resp k v) (range_headers l tc resp kvs))"
    using emits_check_header Cons.IH by (rule emits_seq)
  ultimately show ?case
    by (simp add: kv)
qed

lemma emits_check_raw:
  "emits (if expectRaw tc = None then {} else {AtRaw}) (check_raw tc raw)"
  by (rule emitsI) (auto simp add: check_raw_def fail_def split: option.splits)

lemma emits_check_json:
  "emits (if expectJSON tc = None then {} else {AtJSON}) (check_json l tc raw)"
  by (rule emitsI)
    (auto simp add: check_json_def fail_def split: option.splits prod.splits sum.splits)

lemma emits_grab:
  "emits (if grabOutput tc = None then {} else {AtGrab}) (grab l tc raw)"
  by (rule emitsI) (auto simp add: grab_def split: option.splits prod.splits)

lemma fn_response:
  assumes "buildRequest l tc = Inr req" and "Do (server tc) (jar tc) req = Inr resp"
  shows "fn l tc kvs t = assertions l tc kvs resp t"
  using assms by (simp add: fn_def)

lemma seq_not_exited:
  assumes "\<not> exited (seq f g t)"
  shows "\<not> exited (f t) \<and> seq f g t = g (f t)"
  using assms by (cases "exited (f t)") (simp_all add: seq_exited seq_running)

lemma emits_exited: "emits S f \<Longrightarrow> \<not> exited (f t) \<Longrightarrow> \<not> exited t"
  by (auto simp add: emits_def)

lemma emits_checks:
  "emits ((if expectCode tc = 0 then {} else {AtCode}) \<union>
          (AtHeader ` fst ` set kvs \<union>
          ((if expectRaw tc = None then {} else {AtRaw}) \<union>
           (if expectJSON tc = None then {} else {AtJSON}))))
     (seq (check_code tc resp)
     (seq (range_headers l tc resp kvs)
     (seq (check_raw tc raw) (check_json l tc raw))))"
  by (intro emits_seq emits_check_code emits_range_headers emits_check_raw emits_check_json)

lemma emits_checks_grab:
  "emits (((if expectCode tc = 0 then {} else {AtCode}) \<union>
          (AtHeader ` fst ` set kvs \<union>
          ((if expectRaw tc = None then {} else {AtRaw}) \<union>
           (if expectJSON tc = None then {} else {AtJSON})))) \<union>
          (if grabOutput tc = None then {} else {AtGrab}))
     (seq (seq (check_code tc resp)
          (seq (range_headers l tc resp kvs)
          (seq (check_raw tc raw) (check_json l tc raw))))
          (grab l tc raw))"
  by (intro emits_seq emits_checks emits_grab)

lemma assertions_split:
  "assertions l tc kvs resp =
     seq (read_body resp)
    (seq (log_output (fst (resp_Body resp)))
    (seq (seq (check_code tc resp)
         (seq (range_headers l tc resp kvs)
         (seq (check_raw tc (fst (resp_Body resp))) (check_json l tc (fst (resp_Body resp))))))
         (grab l tc (fst (resp_Body resp)))))"
  by (simp add: assertions_def before_grab_def seq_assoc)

lemma read_body_exited [simp]: "exited (read_body resp t) = exited t"
  by (simp add: read_body_def split: option.splits)

lemma log_output_exited [simp]: "exited (log_output raw t) = exited t"
  by (simp add: log_output_def)

lemma read_body_events:
  "events (read_body resp t) = events t @ (AtReadAll, Enter) #
     (case snd (resp_Body resp) of None \<Rightarrow> []
      | Some err \<Rightarrow> [(AtReadAll, Error (Sprintln [''error reading body:'', err]))])"
  by (simp add: read_body_def split: option.splits)

lemma assertions_prefix:
  assumes "\<not> exited t"
  shows "\<exists>rest. events (assertions l tc kvs resp t) =
      events t @ (AtReadAll, Enter) #
       (case snd (resp_Body resp) of None \<Rightarrow> []
        | Some err \<Rightarrow> [(AtReadAll, Error (Sprintln [''error reading body:'', err]))]) @
       (AtOutput, Log (Sprintln [''output:'' @ [newline], fst (resp_Body resp)])) # rest
     \<and> fst ` set rest \<subseteq>
         ((if expectCode tc = 0 then {} else {AtCode}) \<union>
          (AtHeader ` fst ` set kvs \<union>
          ((if expectRaw tc = None then {} else {AtRaw}) \<union>
           (if expectJSON tc = None then {} else {AtJSON})))) \<union>
          (if grabOutput tc = None then {} else {AtGrab})"
proof -
  let ?raw = "fst (resp_Body resp)"
  let ?t2 = "log_output ?raw (read_body resp t)"
  let ?R = "seq (seq (check_code tc resp)
         (seq (range_headers l tc resp kvs)
         (seq (check_raw tc ?raw) (check_json l tc ?raw))))
         (grab l tc ?raw)"
  have "assertions l tc kvs resp t = ?R ?t2"
    using assms by (simp add: assertions_split seq_running)
  moreover obtain es where "events (?R ?t2) = events ?t2 @ es" and
    "fst ` set es \<subseteq> ((if expectCode tc = 0 then {} else {AtCode}) \<union>
          (AtHeader ` fst ` set kvs \<union>
          ((if expectRaw tc = None then {} else {AtRaw}) \<union>
           (if expectJSON tc = None then {} else {AtJSON})))) \<union>
          (if grabOutput tc = None then {} else {AtGrab})"
    using emits_events [OF emits_checks_grab, where t = "?t2" and tc1 = tc and kvs1 = kvs
        and resp1 = resp and l1 = l and raw1 = "?raw"]
    by (elim exE conjE)
  moreover have "events ?t2 = events t @ (AtReadAll, Enter) #
       (case snd (resp_Body resp) of None \<Rightarrow> []
        | Some err \<Rightarrow> [(AtReadAll, Error (Sprintln [''error reading body:'', err]))]) @
       [(AtOutput, Log (Sprintln [''output:'' @ [newline], ?raw]))]"
    by (simp add: log_output_def read_body_events)
  ultimately show ?thesis
    by simp
qed

lemma upto_assertions:
  assumes "upto 0 t"
  shows "upto 7 (assertions l tc kvs resp t)"
proof -
  let ?raw = "fst (resp_Body resp)"
  have 1: "\<And>t :: 'a T. upto 0 t \<Longrightarrow> upto 1 (read_body resp t)"
    by (rule emits_upto [OF emits_read_body]) auto
  have 2: "\<And>t :: 'a T. upto 1 t \<Longrightarrow> upto 2 (log_output ?raw t)"
    by (rule emits_upto [OF emits_log_output]) auto
  have 3: "\<And>t. upto 2 t \<Longrightarrow> upto 3 (check_code tc resp t)"
    by (rule emits_upto [OF emits_check_code]) (auto split: if_splits)
  have 4: "\<And>t. upto 3 t \<Longrightarrow> upto 4 (range_headers l tc resp kvs t)"
    by (rule emits_upto [OF emits_range_headers]) auto
  have 5: "\<And>t. upto 4 t \<Longrightarrow> upto 5 (check_raw tc ?raw t)"
    by (rule emits_upto [OF emits_check_raw]) (auto split: if_splits)
  have 6: "\<And>t. upto 5 t \<Longrightarrow> upto 6 (check_json l tc ?raw t)"
    by (rule emits_upto [OF emits_check_json]) (auto split: if_splits)
  have 7: "\<And>t. upto 6 t \<Longrightarrow> upto 7 (grab l tc ?raw t)"
    by (rule emits_upto [OF emits_grab]) (auto split: if_splits)
  have 56: "\<And>t. upto 4 t \<Longrightarrow> upto 6 (seq (check_raw tc ?raw) (check_json l tc ?raw) t)"
    using 5 6 by (rule upto_seq) simp_all
  have 46: "\<And>t. upto 3 t \<Longrightarrow>
      upto 6 (seq (range_headers l tc resp kvs) (seq (check_raw tc ?raw) (check_json l tc ?raw)) t)"
    using 4 56 by (rule upto_seq) simp_all
  have 36: "\<And>t. upto 2 t \<Longrightarrow>
      upto 6 (seq (check_code tc resp) (seq (range_headers l tc resp kvs)
        (seq (check_raw tc ?raw) (check_json l tc ?raw))) t)"
    using 3 46 by (rule upto_seq) simp_all
  have 26: "\<And>t. upto 1 t \<Longrightarrow>
      upto 6 (seq (log_output ?raw) (seq (check_code tc resp) (seq (range_headers l tc resp kvs)
        (seq (check_raw tc ?raw) (check_json l tc ?raw)))) t)"
    using 2 36 by (rule upto_seq) simp_all
  have 16: "\<And>t. upto 0 t \<Longrightarrow> upto 6 (before_grab l tc kvs resp t)"
    unfolding before_grab_def using 1 26 by (rule upto_seq) simp_all
  show ?thesis
    unfolding assertions_def by (rule upto_seq [OF 16 7 _ assms]) simp_all
qed

lemma seq_member:
  "emits S g \<Longrightarrow> e \<in> set (events (f t)) \<Longrightarrow> e \<in> set (events (seq f g t))"
  by (cases "exited (f t)") (simp_all add: seq_exited seq_running emits_member)

lemma seq_failed:
  "emits S g \<Longrightarrow> failed (f t) \<Longrightarrow> failed (seq f g t)"
  by (cases "exited (f t)") (simp_all add: seq_exited seq_running emits_def)

lemma check_code_mismatch:
  assumes "expectCode tc \<noteq> 0" and "StatusCode resp \<noteq> expectCode tc"
  shows "(AtCode, (if fatalFailure tc then Fatal else Error) (msg_code tc (StatusCode resp)))
           \<in> set (events (check_code tc resp t))
         \<and> failed (check_code tc resp t)"
  using assms by (simp add: check_code_def fail_def)

lemma check_code_unset: "expectCode tc = 0 \<Longrightarrow> check_code tc resp t = t"
  by (simp add: check_code_def)

lemma check_code_StatusCode:
  "expectCode tc = 0 \<Longrightarrow> check_code tc (resp\<lparr>StatusCode := c\<rparr>) = check_code tc resp"
  by (rule ext) (simp add: check_code_def)

lemma check_header_StatusCode:
  "check_header l tc (resp\<lparr>StatusCode := c\<rparr>) k v = check_header l tc resp k v"
  by (rule ext) (simp add: check_header_def Let_def)

lemma range_headers_StatusCode:
  "range_headers l tc (resp\<lparr>StatusCode := c\<rparr>) kvs t = range_headers l tc resp kvs t"
proof (induction kvs arbitrary: t)
  case Nil
  show ?case by simp
next
  case (Cons kv kvs)
  obtain k v where kv: "kv = (k, v)" by (cases kv)
  show ?case
    by (simp add: kv seq_def Let_def check_header_StatusCode Cons.IH)
qed

lemma read_body_StatusCode: "read_body (resp\<lparr>StatusCode := c\<rparr>) = read_body resp"
  by (rule ext) (simp add: read_body_def)

lemma range_headers_StatusCode_fun:
  "range_headers l tc (resp\<lparr>StatusCode := c\<rparr>) kvs = range_headers l tc resp kvs"
  by (rule ext) (rule range_headers_StatusCode)

lemma assertions_StatusCode:
  assumes "expectCode tc = 0"
  shows "assertions l tc kvs (resp\<lparr>StatusCode := c\<rparr>) t = assertions l tc kvs resp t"
  using assms
  by (simp add: assertions_def before_grab_def check_code_StatusCode read_body_StatusCode
      range_headers_StatusCode_fun)

lemma assertions_after_output:
  assumes "\<not> exited t"
  shows "assertions l tc kvs resp t =
     seq (seq (check_code tc resp)
         (seq (range_headers l tc resp kvs)
         (seq (check_raw tc (fst (resp_Body resp))) (check_json l tc (fst (resp_Body resp))))))
         (grab l tc (fst (resp_Body resp)))
       (log_output (fst (resp_Body resp)) (read_body resp t))"
  using assms by (simp add: assertions_split seq_running)

lemma emits_assertions:
  "emits ({AtReadAll} \<union> ({AtOutput} \<union>
         (((if expectCode tc = 0 then {} else {AtCode}) \<union>
          (AtHeader ` fst ` set kvs \<union>
          ((if expectRaw tc = None then {} else {AtRaw}) \<union>
           (if expectJSON tc = None then {} else {AtJSON})))) \<union>
          (if grabOutput tc = None then {} else {AtGrab}))))
     (assertions l tc kvs resp)"
  unfolding assertions_split
  by (intro emits_seq emits_read_body emits_log_output emits_checks_grab)

lemma assertions_sites:
  assumes "s \<in> sites (assertions l tc kvs resp (newT h))"
  shows "s = AtReadAll \<or> s = AtOutput \<or> (s = AtCode \<and> expectCode tc \<noteq> 0)
       \<or> (\<exists>k v. s = AtHeader k \<and> (k, v) \<in> set kvs) \<or> (s = AtRaw \<and> expectRaw tc \<noteq> None)
       \<or> (s = AtJSON \<and> expectJSON tc \<noteq> None) \<or> (s = AtGrab \<and> grabOutput tc \<noteq> None)"
proof -
  have "sites (newT h :: 'a T) = {}"
    by (simp add: sites_def)
  with emits_sites [OF emits_assertions, of l tc kvs resp "newT h"] assms
  have "s \<in> {AtReadAll} \<union> ({AtOutput} \<union>
         (((if expectCode tc = 0 then {} else {AtCode}) \<union>
          (AtHeader ` fst ` set kvs \<union>
          ((if expectRaw tc = None then {} else {AtRaw}) \<union>
           (if expectJSON tc = None then {} else {AtJSON})))) \<union>
          (if grabOutput tc = None then {} else {AtGrab})))"
    by blast
  then show ?thesis
    by (auto split: if_splits)
qed

text \<open>
  Claim C8.  In a run that obtains a response: when the expected status code is zero, the
  status check records nothing and the run does not depend on the status code of the
  response; when it is not zero and the response has another status code, the test is
  marked failed and the recorded message reads \<open>[method path] unexpected response code:
  want E, got A\<close> with the expected code \<open>E\<close> and the actual code \<open>A\<close> in decimal.
\<close>

theorem status_assertion:
  assumes "buildRequest l tc = Inr req" and "Do (server tc) (jar tc) req = Inr resp"
  shows "(expectCode tc = 0 \<longrightarrow>
            AtCode \<notin> sites (fn l tc kvs (newT h))
          \<and> assertions l tc kvs (resp\<lparr>StatusCode := c\<rparr>) (newT h) = fn l tc kvs (newT h))
       \<and> (expectCode tc \<noteq> 0 \<and> StatusCode resp \<noteq> expectCode tc \<longrightarrow>
            failed (fn l tc kvs (newT h))
          \<and> (AtCode, (if fatalFailure tc then Fatal else Error)
               (''['' @ tc_method tc @ '' '' @ path tc @ ''] unexpected response code: want '' @
                  itoa (expectCode tc) @ '', got '' @ itoa (StatusCode resp)))
             \<in> set (events (fn l tc kvs (newT h))))"
proof (intro conjI impI)
  assume z: "expectCode tc = 0"
  show "AtCode \<notin> sites (fn l tc kvs (newT h))"
    using assertions_sites [of AtCode l tc kvs resp h] z
    by (auto simp add: fn_response [OF assms])
  show "assertions l tc kvs (resp\<lparr>StatusCode := c\<rparr>) (newT h) = fn l tc kvs (newT h)"
    using z by (simp add: fn_response [OF assms] assertions_StatusCode)
next
  assume m: "expectCode tc \<noteq> 0 \<and> StatusCode resp \<noteq> expectCode tc"
  let ?raw = "fst (resp_Body resp)"
  let ?t2 = "log_output ?raw (read_body resp (newT h))"
  let ?rest = "seq (range_headers l tc resp kvs) (seq (check_raw tc ?raw) (check_json l tc ?raw))"
  have rest: "emits (AtHeader ` fst ` set kvs \<union>
          ((if expectRaw tc = None then {} else {AtRaw}) \<union>
           (if expectJSON tc = None then {} else {AtJSON}))) ?rest"
    by (intro emits_seq emits_range_headers emits_check_raw emits_check_json)
  have run: "fn l tc kvs (newT h) = seq (seq (check_code tc resp) ?rest) (grab l tc ?raw) ?t2"
    by (simp add: fn_response [OF assms] assertions_after_output)
  from m have c: "(AtCode, (if fatalFailure tc then Fatal else Error) (msg_code tc (StatusCode resp)))
           \<in> set (events (check_code tc resp ?t2))" and f: "failed (check_code tc resp ?t2)"
    using check_code_mismatch by blast+
  show "failed (fn l tc kvs (newT h))"
    unfolding run by (intro seq_failed [OF emits_grab] seq_failed [OF rest] f)
  have "(AtCode, (if fatalFailure tc then Fatal else Error) (msg_code tc (StatusCode resp)))
      \<in> set (events (fn l tc kvs (newT h)))"
    unfolding run by (intro seq_member [OF emits_grab] seq_member [OF rest] c)
  then show "(AtCode, (if fatalFailure tc then Fatal else Error)
               (''['' @ tc_method tc @ '' '' @ path tc @ ''] unexpected response code: want '' @
                  itoa (expectCode tc) @ '', got '' @ itoa (StatusCode resp)))
             \<in> set (events (fn l tc kvs (newT h)))"
    by (simp add: msg_code_def tag_def)
qed

lemma range_order_dom: "range_order m kvs \<Longrightarrow> fst ` set kvs = dom m"
  by (simp add: range_order_def dom_map_of_conv_image_fst [symmetric])

lemma check_header_enters:
  "(AtHeader k, Enter) \<in> set (events (check_header l tc resp k v t))"
proof -
  have "(AtHeader k, Enter) \<in> set (events (enter (AtHeader k) t))"
    by simp
  then show ?thesis
    unfolding check_header_def Let_def
    by (auto intro: seq_member [OF emits_seq [OF emits_fail emits_id]] simp add: seq_def Let_def fail_def)
qed

lemma range_headers_enters:
  assumes "k \<in> fst ` set kvs" and "\<not> exited (range_headers l tc resp kvs t)"
  shows "(AtHeader k, Enter) \<in> set (events (range_headers l tc resp kvs t))"
  using assms
proof (induction kvs arbitrary: t)
  case Nil
  then show ?case by simp
next
  case (Cons kv kvs)
  obtain k' v' where kv: "kv = (k', v')" by (cases kv)
  let ?t1 = "check_header l tc resp k' v' t"
  from Cons.prems(2) have ne: "\<not> exited ?t1"
    and run: "range_headers l tc resp (kv # kvs) t = range_headers l tc resp kvs ?t1"
    using seq_not_exited [of "check_header l tc resp k' v'" "range_headers l tc resp kvs" t]
    by (simp_all add: kv)
  show ?case
  proof (cases "k = k'")
    case True
    then show ?thesis
      using check_header_enters [of k' l tc resp v' t] emits_member [OF emits_range_headers]
      by (simp add: run)
  next
    case False
    with Cons.prems(1) have "k \<in> fst ` set kvs" by (auto simp add: kv)
    then show ?thesis
      using Cons.IH [of ?t1] Cons.prems(2) by (simp add: run)
  qed
qed

lemma check_code_enters:
  "expectCode tc \<noteq> 0 \<Longrightarrow> (AtCode, Enter) \<in> set (events (check_code tc resp t))"
  by (simp add: check_code_def fail_def)

lemma check_raw_enters:
  "expectRaw tc \<noteq> None \<Longrightarrow> (AtRaw, Enter) \<in> set (events (check_raw tc raw t))"
  by (auto simp add: check_raw_def fail_def)

lemma check_json_enters:
  "expectJSON tc \<noteq> None \<Longrightarrow> (AtJSON, Enter) \<in> set (events (check_json l tc raw t))"
  by (auto simp add: check_json_def fail_def split: prod.splits option.splits sum.splits)

lemma grab_enters:
  "grabOutput tc \<noteq> None \<Longrightarrow> (AtGrab, Enter) \<in> set (events (grab l tc raw t))"
  by (auto simp add: grab_def split: prod.splits option.splits)

text \<open>A run that reaches its end has gone through every statement.\<close>

lemma assertions_running:
  assumes "\<not> exited (assertions l tc kvs resp t)"
  shows "assertions l tc kvs resp t =
      grab l tc (fst (resp_Body resp))
        (check_json l tc (fst (resp_Body resp))
          (check_raw tc (fst (resp_Body resp))
            (range_headers l tc resp kvs
              (check_code tc resp
                (log_output (fst (resp_Body resp)) (read_body resp t))))))"
proof -
  let ?raw = "fst (resp_Body resp)"
  let ?t1 = "read_body resp t"
  let ?t2 = "log_output ?raw ?t1"
  let ?t3 = "check_code tc resp ?t2"
  let ?t4 = "range_headers l tc resp kvs ?t3"
  let ?t5 = "check_raw tc ?raw ?t4"
  let ?t6 = "check_json l tc ?raw ?t5"
  let ?f5 = "seq (check_raw tc ?raw) (check_json l tc ?raw)"
  let ?f4 = "seq (range_headers l tc resp kvs) ?f5"
  let ?f3 = "seq (check_code tc resp) ?f4"
  let ?f2 = "seq (log_output ?raw) ?f3"
  from assms have a: "assertions l tc kvs resp t = grab l tc ?raw (before_grab l tc kvs resp t)"
    and b: "\<not> exited (before_grab l tc kvs resp t)"
    using seq_not_exited [of "before_grab l tc kvs resp" "grab l tc ?raw" t]
    by (simp_all add: assertions_def)
  have b1: "before_grab l tc kvs resp t = ?f2 ?t1" and n1: "\<not> exited ?t1"
    using b seq_not_exited [of "read_body resp" ?f2 t] by (simp_all add: before_grab_def)
  have b2: "?f2 ?t1 = ?f3 ?t2" and n2: "\<not> exited ?t2"
    using b b1 seq_not_exited [of "log_output ?raw" ?f3 ?t1] by simp_all
  have b3: "?f3 ?t2 = ?f4 ?t3" and n3: "\<not> exited ?t3"
    using b b1 b2 seq_not_exited [of "check_code tc resp" ?f4 ?t2] by simp_all
  have b4: "?f4 ?t3 = ?f5 ?t4" and n4: "\<not> exited ?t4"
    using b b1 b2 b3 seq_not_exited [of "range_headers l tc resp kvs" ?f5 ?t3] by simp_all
  have b5: "?f5 ?t4 = ?t6" and n5: "\<not> exited ?t5"
    using b b1 b2 b3 b4 seq_not_exited [of "check_raw tc ?raw" "check_json l tc ?raw" ?t4]
    by simp_all
  show ?thesis
    by (simp only: a b1 b2 b3 b4 b5)
qed

lemma assertions_entered:
  assumes ne: "\<not> exited (assertions l tc kvs resp t)"
  shows "(expectCode tc \<noteq> 0 \<longrightarrow> (AtCode, Enter) \<in> set (events (assertions l tc kvs resp t)))
       \<and> (\<forall>k \<in> fst ` set kvs. (AtHeader k, Enter) \<in> set (events (assertions l tc kvs resp t)))
       \<and> (expectRaw tc \<noteq> None \<longrightarrow> (AtRaw, Enter) \<in> set (events (assertions l tc kvs resp t)))
       \<and> (expectJSON tc \<noteq> None \<longrightarrow> (AtJSON, Enter) \<in> set (events (assertions l tc kvs resp t)))
       \<and> (grabOutput tc \<noteq> None \<longrightarrow> (AtGrab, Enter) \<in> set (events (assertions l tc kvs resp t)))"
proof -
  let ?raw = "fst (resp_Body resp)"
  let ?t2 = "log_output ?raw (read_body resp t)"
  let ?t3 = "check_code tc resp ?t2"
  let ?t4 = "range_headers l tc resp kvs ?t3"
  let ?t5 = "check_raw tc ?raw ?t4"
  let ?t6 = "check_json l tc ?raw ?t5"
  have run: "assertions l tc kvs resp t = grab l tc ?raw ?t6"
    using ne by (rule assertions_running)
  have n6: "\<not> exited ?t6"
    using ne emits_exited [OF emits_grab] unfolding run by blast
  have n5: "\<not> exited ?t5"
    using n6 emits_exited [OF emits_check_json] by blast
  have n4: "\<not> exited ?t4"
    using n5 emits_exited [OF emits_check_raw] by blast
  note keep7 = emits_member [OF emits_grab]
  note keep6 = emits_member [OF emits_check_json]
  note keep5 = emits_member [OF emits_check_raw]
  note keep4 = emits_member [OF emits_range_headers]
  show ?thesis
    unfolding run
  proof (intro conjI impI ballI)
    assume "expectCode tc \<noteq> 0"
    then show "(AtCode, Enter) \<in> set (events (grab l tc ?raw ?t6))"
      by (intro keep7 keep6 keep5 keep4 check_code_enters)
  next
    fix k assume "k \<in> fst ` set kvs"
    then show "(AtHeader k, Enter) \<in> set (events (grab l tc ?raw ?t6))"
      using n4 by (intro keep7 keep6 keep5 range_headers_enters)
  next
    assume "expectRaw tc \<noteq> None"
    then show "(AtRaw, Enter) \<in> set (events (grab l tc ?raw ?t6))"
      by (intro keep7 keep6 check_raw_enters)
  next
    assume "expectJSON tc \<noteq> None"
    then show "(AtJSON, Enter) \<in> set (events (grab l tc ?raw ?t6))"
      by (intro keep7 check_json_enters)
  next
    assume "grabOutput tc \<noteq> None"
    then show "(AtGrab, Enter) \<in> set (events (grab l tc ?raw ?t6))"
      by (rule grab_enters)
  qed
qed

lemma phase_ge_3:
  assumes "fst ` set rest \<subseteq>
         ((if expectCode tc = 0 then {} else {AtCode}) \<union>
          (AtHeader ` fst ` set kvs \<union>
          ((if expectRaw tc = None then {} else {AtRaw}) \<union>
           (if expectJSON tc = None then {} else {AtJSON})))) \<union>
          (if grabOutput tc = None then {} else {AtGrab})"
  shows "list_all (\<lambda>e. 3 \<le> phase (fst e)) rest"
proof -
  have "3 \<le> phase (fst e)" if "e \<in> set rest" for e
  proof -
    from that assms have "fst e \<in> ((if expectCode tc = 0 then {} else {AtCode}) \<union>
          (AtHeader ` fst ` set kvs \<union>
          ((if expectRaw tc = None then {} else {AtRaw}) \<union>
           (if expectJSON tc = None then {} else {AtJSON})))) \<union>
          (if grabOutput tc = None then {} else {AtGrab})"
      by blast
    then show ?thesis
      by (auto split: if_splits)
  qed
  then show ?thesis
    by (simp add: list_all_iff)
qed

text \<open>
  What a run may record, and in which order: the read and the diagnostic output come
  first, the events are in the order of the statements, and a step whose field is unset
  records nothing.
\<close>

lemma assertions_order_bounds:
  assumes "buildRequest l tc = Inr req" and "Do (server tc) (jar tc) req = Inr resp"
    and "range_order (expectHeaders tc) kvs"
  shows "(\<exists>rest. events (fn l tc kvs (newT h)) =
            (AtReadAll, Enter) #
            (case snd (resp_Body resp) of None \<Rightarrow> []
             | Some err \<Rightarrow> [(AtReadAll, Error (Sprintln [''error reading body:'', err]))]) @
            (AtOutput, Log (Sprintln [''output:'' @ [newline], fst (resp_Body resp)])) # rest
          \<and> list_all (\<lambda>e. 3 \<le> phase (fst e)) rest)
       \<and> sorted (map (phase \<circ> fst) (events (fn l tc kvs (newT h))))
       \<and> (expectCode tc = 0 \<longrightarrow> AtCode \<notin> sites (fn l tc kvs (newT h)))
       \<and> (\<forall>k. k \<notin> dom (expectHeaders tc) \<longrightarrow> AtHeader k \<notin> sites (fn l tc kvs (newT h)))
       \<and> (expectRaw tc = None \<longrightarrow> AtRaw \<notin> sites (fn l tc kvs (newT h)))
       \<and> (expectJSON tc = None \<longrightarrow> AtJSON \<notin> sites (fn l tc kvs (newT h)))
       \<and> (grabOutput tc = None \<longrightarrow> AtGrab \<notin> sites (fn l tc kvs (newT h)))
       \<and> (\<not> exited (fn l tc kvs (newT h)) \<longrightarrow>
            (expectCode tc \<noteq> 0 \<longrightarrow> (AtCode, Enter) \<in> set (events (fn l tc kvs (newT h))))
          \<and> (\<forall>k \<in> dom (expectHeaders tc). (AtHeader k, Enter) \<in> set (events (fn l tc kvs (newT h))))
          \<and> (expectRaw tc \<noteq> None \<longrightarrow> (AtRaw, Enter) \<in> set (events (fn l tc kvs (newT h))))
          \<and> (expectJSON tc \<noteq> None \<longrightarrow> (AtJSON, Enter) \<in> set (events (fn l tc kvs (newT h))))
          \<and> (grabOutput tc \<noteq> None \<longrightarrow> (AtGrab, Enter) \<in> set (events (fn l tc kvs (newT h)))))"
proof -
  let ?t = "fn l tc kvs (newT h)"
  have run: "?t = assertions l tc kvs resp (newT h)"
    using assms(1,2) by (rule fn_response)
  have dom: "fst ` set kvs = dom (expectHeaders tc)"
    using assms(3) by (rule range_order_dom)
  have start: "\<not> exited (newT h :: 'a T)" "upto 0 (newT h :: 'a T)"
    by (simp_all add: upto_def)
  have 1: "\<exists>rest. events ?t =
            (AtReadAll, Enter) #
            (case snd (resp_Body resp) of None \<Rightarrow> []
             | Some err \<Rightarrow> [(AtReadAll, Error (Sprintln [''error reading body:'', err]))]) @
            (AtOutput, Log (Sprintln [''output:'' @ [newline], fst (resp_Body resp)])) # rest
          \<and> list_all (\<lambda>e. 3 \<le> phase (fst e)) rest"
    using assertions_prefix [OF start(1), of l tc kvs resp] phase_ge_3 [of _ tc kvs]
    unfolding run by auto
  have 2: "sorted (map (phase \<circ> fst) (events ?t))"
    using upto_assertions [OF start(2), of l tc kvs resp] unfolding run by (simp add: upto_def)
  have 3: "expectCode tc = 0 \<longrightarrow> AtCode \<notin> sites ?t"
    "\<forall>k. k \<notin> dom (expectHeaders tc) \<longrightarrow> AtHeader k \<notin> sites ?t"
    "expectRaw tc = None \<longrightarrow> AtRaw \<notin> sites ?t"
    "expectJSON tc = None \<longrightarrow> AtJSON \<notin> sites ?t"
    "grabOutput tc = None \<longrightarrow> AtGrab \<notin> sites ?t"
    using assertions_sites [of _ l tc kvs resp h] dom unfolding run by force+
  have 4: "\<not> exited ?t \<longrightarrow>
            (expectCode tc \<noteq> 0 \<longrightarrow> (AtCode, Enter) \<in> set (events ?t))
          \<and> (\<forall>k \<in> dom (expectHeaders tc). (AtHeader k, Enter) \<in> set (events ?t))
          \<and> (expectRaw tc \<noteq> None \<longrightarrow> (AtRaw, Enter) \<in> set (events ?t))
          \<and> (expectJSON tc \<noteq> None \<longrightarrow> (AtJSON, Enter) \<in> set (events ?t))
          \<and> (grabOutput tc \<noteq> None \<longrightarrow> (AtGrab, Enter) \<in> set (events ?t))"
    using assertions_entered [of l tc kvs resp "newT h"] unfolding run dom by blast
  from 1 2 3 4 show ?thesis
    by (intro conjI)
qed

lemma itoa_200: "itoa 200 = ''200''" by code_simp
lemma itoa_405: "itoa 405 = ''405''" by code_simp
lemma itoa_500: "itoa 500 = ''500''" by code_simp

lemma buildRequest_lib0:
  "mutateReq tc = [] \<Longrightarrow> buildRequest lib0 tc =
     Inr \<lparr>req_Method = (if tc_method tc = [] then ''GET'' else tc_method tc),
          req_URL = URL (server tc) @ path tc, req_Header = Map.empty, req_Body = input tc\<rparr>"
  by (simp add: buildRequest_def NewRequest_def lib0_def)

lemma Do_answering:
  "Do (answering code hdr body) j req = Inr \<lparr>StatusCode = code, resp_Header = hdr, resp_Body = body\<rparr>"
  by (simp add: answering_def)

theorem status_assertion_witness:
  "failed (fn lib0 ((newTestCase (answering 405 Map.empty ([], None)) ''GET'' ''/greet'')\<lparr>expectCode := 200\<rparr>)
       [] (newT (\<lambda>p. GoInt 0)))
   \<and> (AtCode, Error ''[GET /greet] unexpected response code: want 200, got 405'')
       \<in> set (events (fn lib0
            ((newTestCase (answering 405 Map.empty ([], None)) ''GET'' ''/greet'')\<lparr>expectCode := 200\<rparr>)
            [] (newT (\<lambda>p. GoInt 0))))
   \<and> AtCode \<notin> sites (fn lib0 (newTestCase (answering 405 Map.empty ([], None)) ''GET'' ''/greet'')
            [] (newT (\<lambda>p. GoInt 0)))"
proof -
  let ?s = "answering 405 Map.empty ([], None)"
  let ?base = "newTestCase ?s ''GET'' ''/greet'' :: (scalar, unit) testCase"
  let ?tc = "?base\<lparr>expectCode := 200\<rparr>"
  let ?req = "\<lparr>req_Method = ''GET'', req_URL = URL ?s @ ''/greet'', req_Header = Map.empty,
      req_Body = None\<rparr>"
  let ?resp = "\<lparr>StatusCode = 405, resp_Header = Map.empty, resp_Body = ([], None)\<rparr>"
  have b: "buildRequest lib0 ?tc = Inr ?req"
    by (simp add: buildRequest_lib0 newTestCase_def)
  have b0: "buildRequest lib0 ?base = Inr ?req"
    by (simp add: buildRequest_lib0 newTestCase_def)
  have d: "Do (server ?tc) (jar ?tc) ?req = Inr ?resp"
    by (simp add: Do_answering newTestCase_def)
  have d0: "Do (server ?base) (jar ?base) ?req = Inr ?resp"
    by (simp add: Do_answering newTestCase_def)
  have p1: "failed (fn lib0 ?tc [] (newT (\<lambda>p. GoInt 0)))
      \<and> (AtCode, Error ''[GET /greet] unexpected response code: want 200, got 405'')
         \<in> set (events (fn lib0 ?tc [] (newT (\<lambda>p. GoInt 0))))"
    using status_assertion [OF b d, of "[]" "\<lambda>p. GoInt 0" 405]
    by (simp add: newTestCase_def itoa_200 itoa_405)
  have p2: "AtCode \<notin> sites (fn lib0 ?base [] (newT (\<lambda>p. GoInt 0)))"
    using status_assertion [OF b0 d0, of "[]" "\<lambda>p. GoInt 0" 405]
    by (simp add: newTestCase_def)
  from p1 p2 show ?thesis
    by (intro conjI) (elim conjE, assumption)+
qed

lemma fn_eval:
  "buildRequest l tc = Inr req \<Longrightarrow> Do (server tc) (jar tc) req = Inr resp \<Longrightarrow>
   fn l tc kvs t =
     seq (seq (read_body resp)
    (seq (log_output (fst (resp_Body resp)))
    (seq (check_code tc resp)
    (seq (range_headers l tc resp kvs)
    (seq (check_raw tc (fst (resp_Body resp)))
         (check_json l tc (fst (resp_Body resp))))))))
     (grab l tc (fst (resp_Body resp))) t"
  by (simp add: fn_def assertions_def before_grab_def)


section \<open>The embedded executor against its step-by-step description\<close>

text \<open>
  Every statement of the embedded executor runs the events of the corresponding step,
  and so does their sequence.
\<close>

lemma runsI:
  assumes "\<And>t. \<not> exited t \<Longrightarrow> events (f t) = events t @ until_end es"
    and "\<And>t. \<not> exited t \<Longrightarrow> exited (f t) = list_ex ending es"
    and "\<And>t. \<not> exited t \<Longrightarrow> failed (f t) = (failed t \<or> list_ex failing (until_end es))"
    and "\<And>t. \<not> exited t \<Longrightarrow> heap (f t) = heap t"
  shows "runs f es"
  using assms by (simp add: runs_def)

lemma until_end_append:
  "until_end (xs @ ys) = (if list_ex ending xs then until_end xs else xs @ until_end ys)"
  by (induction xs) auto

lemma until_end_id: "\<not> list_ex ending xs \<Longrightarrow> until_end xs = xs"
  by (induction xs) auto

lemma ending_until_end: "list_ex ending (until_end xs) = list_ex ending xs"
  by (induction xs) auto

lemma ending_failing: "ending e \<Longrightarrow> failing e"
  by (cases e rule: ending.cases) auto

lemma ended_failed: "list_ex ending xs \<Longrightarrow> list_ex failing (until_end xs)"
  by (induction xs) (auto simp add: ending_failing)

lemma runs_seq:
  assumes f: "runs f xs" and g: "runs g ys"
  shows "runs (seq f g) (xs @ ys)"
proof -
  have "events (seq f g t) = events t @ until_end (xs @ ys)
      \<and> exited (seq f g t) = list_ex ending (xs @ ys)
      \<and> failed (seq f g t) = (failed t \<or> list_ex failing (until_end (xs @ ys)))
      \<and> heap (seq f g t) = heap t"
    if n: "\<not> exited t" for t :: "'a T"
  proof -
    from f n have fe: "events (f t) = events t @ until_end xs"
      and fx: "exited (f t) = list_ex ending xs"
      and ff: "failed (f t) = (failed t \<or> list_ex failing (until_end xs))"
      and fh: "heap (f t) = heap t"
      by (simp_all add: runs_def)
    show ?thesis
    proof (cases "list_ex ending xs")
      case True
      then have "seq f g t = f t"
        using fx by (simp add: seq_exited)
      then show ?thesis
        using True fe fx ff fh by (simp add: until_end_append)
    next
      case False
      then have r: "seq f g t = g (f t)" and nf: "\<not> exited (f t)"
        using fx by (simp_all add: seq_running)
      from g nf have ge: "events (g (f t)) = events (f t) @ until_end ys"
        and gx: "exited (g (f t)) = list_ex ending ys"
        and gf: "failed (g (f t)) = (failed (f t) \<or> list_ex failing (until_end ys))"
        and gh: "heap (g (f t)) = heap (f t)"
        by (simp_all add: runs_def)
      show ?thesis
        using False r fe ff fh ge gx gf gh
        by (auto simp add: until_end_append until_end_id)
    qed
  qed
  then show ?thesis
    by (simp add: runs_def)
qed

lemma runs_read_body: "runs (read_body resp) (spec_read resp)"
  by (rule runsI) (auto simp add: read_body_def spec_read_def split: option.splits)

lemma runs_log_output: "runs (log_output raw) (spec_output raw)"
  by (rule runsI) (auto simp add: log_output_def spec_output_def)

lemma runs_check_code: "runs (check_code tc resp) (spec_status tc resp)"
  by (rule runsI) (auto simp add: check_code_def spec_status_def fail_def failure_def)

lemma runs_check_header: "runs (check_header l tc resp k v) (spec_header l tc resp (k, v))"
  by (rule runsI)
    (auto simp add: check_header_def spec_header_def fail_def failure_def seq_def Let_def)

lemma runs_range_headers:
  "runs (range_headers l tc resp kvs) (concat (map (spec_header l tc resp) kvs))"
proof (induction kvs)
  case Nil
  show ?case by (rule runsI) simp_all
next
  case (Cons kv kvs)
  obtain k v where kv: "kv = (k, v)" by (cases kv)
  have "range_headers l tc resp (kv # kvs) =
      seq (check_header l tc resp k v) (range_headers l tc resp kvs)"
    by (rule ext) (simp add: kv)
  then show ?case
    using runs_seq [OF runs_check_header Cons.IH, of l tc resp k v] by (simp add: kv)
qed

lemma runs_check_raw: "runs (check_raw tc raw) (spec_raw tc raw)"
  by (rule runsI)
    (auto simp add: check_raw_def spec_raw_def fail_def failure_def split: option.splits)

lemma runs_check_json: "runs (check_json l tc raw) (spec_structured l tc raw)"
  by (rule runsI)
    (auto simp add: check_json_def spec_structured_def fail_def failure_def
      split: option.splits prod.splits sum.splits)

lemma runs_before_grab: "runs (before_grab l tc kvs resp) (spec_checks l tc kvs resp)"
  unfolding before_grab_def spec_checks_def
  by (intro runs_seq runs_read_body runs_log_output runs_check_code runs_range_headers
      runs_check_raw runs_check_json)

lemma grab_run:
  "events (grab l tc raw t) = events t @ spec_capture l tc raw (heap t)
   \<and> exited (grab l tc raw t) = (exited t \<or> list_ex ending (spec_capture l tc raw (heap t)))
   \<and> failed (grab l tc raw t) = (failed t \<or> list_ex failing (spec_capture l tc raw (heap t)))
   \<and> heap (grab l tc raw t) =
       (case grabOutput tc of None \<Rightarrow> heap t
        | Some p \<Rightarrow> (heap t)(p := snd (Unmarshal l raw (heap t p))))"
  by (cases "grabOutput tc")
    (auto simp add: grab_def spec_capture_def split: prod.splits option.splits)

lemma until_end_spec_capture: "until_end (spec_capture l tc raw h) = spec_capture l tc raw h"
  by (simp add: spec_capture_def split: option.splits)

lemma assertions_run:
  assumes "\<not> exited t"
  shows "events (assertions l tc kvs resp t) =
           events t @ until_end (spec_checks l tc kvs resp @
                                 spec_capture l tc (fst (resp_Body resp)) (heap t))
       \<and> exited (assertions l tc kvs resp t) =
           list_ex ending (spec_checks l tc kvs resp @
                           spec_capture l tc (fst (resp_Body resp)) (heap t))
       \<and> failed (assertions l tc kvs resp t) =
           (failed t \<or> list_ex failing (until_end (spec_checks l tc kvs resp @
                                 spec_capture l tc (fst (resp_Body resp)) (heap t))))
       \<and> heap (assertions l tc kvs resp t) = spec_heap l tc kvs resp (heap t)"
proof -
  let ?raw = "fst (resp_Body resp)"
  let ?b = "before_grab l tc kvs resp t"
  let ?cs = "spec_checks l tc kvs resp"
  from runs_before_grab [of l tc kvs resp] assms
  have be: "events ?b = events t @ until_end ?cs"
    and bx: "exited ?b = list_ex ending ?cs"
    and bf: "failed ?b = (failed t \<or> list_ex failing (until_end ?cs))"
    and bh: "heap ?b = heap t"
    by (simp_all add: runs_def)
  show ?thesis
  proof (cases "list_ex ending ?cs")
    case True
    then have "assertions l tc kvs resp t = ?b"
      using bx by (simp add: assertions_def seq_exited)
    then show ?thesis
      using True be bx bf bh
      by (simp add: until_end_append spec_heap_def split: option.splits)
  next
    case False
    then have r: "assertions l tc kvs resp t = grab l tc ?raw ?b"
      using bx by (simp add: assertions_def seq_running)
    show ?thesis
      using False grab_run [of l tc ?raw ?b] be bx bf bh
      by (auto simp add: r until_end_append until_end_id until_end_spec_capture spec_heap_def
          split: option.splits)
  qed
qed

text \<open>
  Claim C4.  In every run in which the request was built and answered, the executor
  reads the whole body, then logs it, and then evaluates the status code, the expected
  headers (in the order of the range over the map), the raw body, the structured
  comparison and the capture, in this order, each step only when its field is set.
  Precisely: the events of the run of \<open>fn\<close> are those of the step-by-step description
  (the read, the output, then each configured step with the outcome of its comparison,
  up to the first event that ends the test), the test is marked failed and ended exactly
  when that description says so, and the store is the one it describes.  In particular
  the read and the output come first and every later event belongs to an assertion,
  the events are in the order of the statements, a step whose field is unset records
  nothing, and in a run that reaches its end every configured step was entered.
\<close>

theorem assertions_in_fixed_order:
  assumes "buildRequest l tc = Inr req" and "Do (server tc) (jar tc) req = Inr resp"
    and "range_order (expectHeaders tc) kvs"
  shows "events (fn l tc kvs (newT h)) = spec_run l tc kvs resp h
       \<and> failed (fn l tc kvs (newT h)) = list_ex failing (spec_run l tc kvs resp h)
       \<and> exited (fn l tc kvs (newT h)) = list_ex ending (spec_run l tc kvs resp h)
       \<and> heap (fn l tc kvs (newT h)) = spec_heap l tc kvs resp h
       \<and> (\<exists>rest. events (fn l tc kvs (newT h)) =
            (AtReadAll, Enter) #
            (case snd (resp_Body resp) of None \<Rightarrow> []
             | Some err \<Rightarrow> [(AtReadAll, Error (Sprintln [''error reading body:'', err]))]) @
            (AtOutput, Log (Sprintln [''output:'' @ [newline], fst (resp_Body resp)])) # rest
          \<and> list_all (\<lambda>e. 3 \<le> phase (fst e)) rest)
       \<and> sorted (map (phase \<circ> fst) (events (fn l tc kvs (newT h))))
       \<and> (expectCode tc = 0 \<longrightarrow> AtCode \<notin> sites (fn l tc kvs (newT h)))
       \<and> (\<forall>k. k \<notin> dom (expectHeaders tc) \<longrightarrow> AtHeader k \<notin> sites (fn l tc kvs (newT h)))
       \<and> (expectRaw tc = None \<longrightarrow> AtRaw \<notin> sites (fn l tc kvs (newT h)))
       \<and> (expectJSON tc = None \<longrightarrow> AtJSON \<notin> sites (fn l tc kvs (newT h)))
       \<and> (grabOutput tc = None \<longrightarrow> AtGrab \<notin> sites (fn l tc kvs (newT h)))
       \<and> (\<not> exited (fn l tc kvs (newT h)) \<longrightarrow>
            (expectCode tc \<noteq> 0 \<longrightarrow> (AtCode, Enter) \<in> set (events (fn l tc kvs (newT h))))
          \<and> (\<forall>k \<in> dom (expectHeaders tc). (AtHeader k, Enter) \<in> set (events (fn l tc kvs (newT h))))
          \<and> (expectRaw tc \<noteq> None \<longrightarrow> (AtRaw, Enter) \<in> set (events (fn l tc kvs (newT h))))
          \<and> (expectJSON tc \<noteq> None \<longrightarrow> (AtJSON, Enter) \<in> set (events (fn l tc kvs (newT h))))
          \<and> (grabOutput tc \<noteq> None \<longrightarrow> (AtGrab, Enter) \<in> set (events (fn l tc kvs (newT h)))))"
proof -
  have run: "fn l tc kvs (newT h) = assertions l tc kvs resp (newT h)"
    using assms(1,2) by (rule fn_response)
  have "\<not> exited (newT h :: 'a T)"
    by simp
  from assertions_run [OF this, of l tc kvs resp]
  have "events (fn l tc kvs (newT h)) = spec_run l tc kvs resp h"
    and "failed (fn l tc kvs (newT h)) = list_ex failing (spec_run l tc kvs resp h)"
    and "exited (fn l tc kvs (newT h)) = list_ex ending (spec_run l tc kvs resp h)"
    and "heap (fn l tc kvs (newT h)) = spec_heap l tc kvs resp h"
    by (simp_all add: run spec_run_def ending_until_end)
  with assertions_order_bounds [OF assms, of h] show ?thesis
    by (intro conjI) (elim conjE, assumption)+
qed

theorem assertions_in_fixed_order_witness:
  "range_order [''Content-Type'' \<mapsto> ''application/json''] [(''Content-Type'', ''application/json'')]
   \<and> events (fn lib0
        ((newTestCase (answering 500 [''Content-Type'' \<mapsto> [''application/json'']] (''41'', None))
            ''GET'' ''/answer'')
           \<lparr>expectCode := 200, expectRaw := Some ''42'',
            expectHeaders := [''Content-Type'' \<mapsto> ''application/json''],
            grabOutput := Some 0\<rparr>)
        [(''Content-Type'', ''application/json'')] (newT (\<lambda>p. GoInt 0)))
      = [(AtReadAll, Enter), (AtOutput, Log (Sprintln [''output:'' @ [newline], ''41''])),
         (AtCode, Enter),
         (AtCode, Error ''[GET /answer] unexpected response code: want 200, got 500''),
         (AtHeader ''Content-Type'', Enter),
         (AtRaw, Enter),
         (AtRaw, Error (''[GET /answer] raw output mismatch:'' @ [newline] @ ''want: 42''
            @ [newline] @ ''got: 41'')),
         (AtGrab, Enter),
         (AtGrab, Fatal (Sprintln [''invalid character'']))]
   \<and> failed (fn lib0
        ((newTestCase (answering 500 [''Content-Type'' \<mapsto> [''application/json'']] (''41'', None))
            ''GET'' ''/answer'')
           \<lparr>expectCode := 200, expectRaw := Some ''42'',
            expectHeaders := [''Content-Type'' \<mapsto> ''application/json''],
            grabOutput := Some 0\<rparr>)
        [(''Content-Type'', ''application/json'')] (newT (\<lambda>p. GoInt 0)))
   \<and> exited (fn lib0
        ((newTestCase (answering 500 [''Content-Type'' \<mapsto> [''application/json'']] (''41'', None))
            ''GET'' ''/answer'')
           \<lparr>expectCode := 200, expectRaw := Some ''42'',
            expectHeaders := [''Content-Type'' \<mapsto> ''application/json''],
            grabOutput := Some 0\<rparr>)
        [(''Content-Type'', ''application/json'')] (newT (\<lambda>p. GoInt 0)))
   \<and> AtJSON \<notin> sites (fn lib0
        ((newTestCase (answering 500 [''Content-Type'' \<mapsto> [''application/json'']] (''41'', None))
            ''GET'' ''/answer'')
           \<lparr>expectCode := 200, expectRaw := Some ''42'',
            expectHeaders := [''Content-Type'' \<mapsto> ''application/json''],
            grabOutput := Some 0\<rparr>)
        [(''Content-Type'', ''application/json'')] (newT (\<lambda>p. GoInt 0)))"
proof -
  let ?hd = "[''Content-Type'' \<mapsto> [''application/json'']]"
  let ?s = "answering 500 ?hd (''41'', None)"
  let ?tc = "(newTestCase ?s ''GET'' ''/answer'' :: (scalar, unit) testCase)
           \<lparr>expectCode := 200, expectRaw := Some ''42'',
            expectHeaders := [''Content-Type'' \<mapsto> ''application/json''],
            grabOutput := Some 0\<rparr>"
  let ?kvs = "[(''Content-Type'', ''application/json'')]"
  let ?req = "\<lparr>req_Method = ''GET'', req_URL = URL ?s @ ''/answer'', req_Header = Map.empty,
      req_Body = None\<rparr>"
  let ?resp = "\<lparr>StatusCode = 500, resp_Header = ?hd, resp_Body = (''41'', None)\<rparr>"
  let ?F = "fn lib0 ?tc ?kvs (newT (\<lambda>p. GoInt 0))"
  have b: "buildRequest lib0 ?tc = Inr ?req"
    by (simp add: buildRequest_lib0 newTestCase_def)
  have d: "Do (server ?tc) (jar ?tc) ?req = Inr ?resp"
    by (simp add: Do_answering newTestCase_def)
  have r: "range_order (expectHeaders ?tc) ?kvs"
    by (simp add: range_order_def newTestCase_def)
  have s: "spec_run lib0 ?tc ?kvs ?resp (\<lambda>p. GoInt 0)
      = [(AtReadAll, Enter), (AtOutput, Log (Sprintln [''output:'' @ [newline], ''41''])),
         (AtCode, Enter),
         (AtCode, Error ''[GET /answer] unexpected response code: want 200, got 500''),
         (AtHeader ''Content-Type'', Enter),
         (AtRaw, Enter),
         (AtRaw, Error (''[GET /answer] raw output mismatch:'' @ [newline] @ ''want: 42''
            @ [newline] @ ''got: 41'')),
         (AtGrab, Enter),
         (AtGrab, Fatal (Sprintln [''invalid character'']))]"
    by (simp add: spec_run_def spec_checks_def spec_read_def spec_output_def spec_status_def
        spec_header_def spec_raw_def spec_structured_def spec_capture_def failure_def
        msg_code_def msg_raw_def tag_def itoa_200 itoa_500 Header_Get_def
        Canonical_Content_Type lib0_def newTestCase_def)
  note inst = assertions_in_fixed_order [OF b d r, of "\<lambda>p. GoInt 0"]
  from inst have e: "events ?F = spec_run lib0 ?tc ?kvs ?resp (\<lambda>p. GoInt 0)"
    by (elim conjE)
  from inst have f: "failed ?F = list_ex failing (spec_run lib0 ?tc ?kvs ?resp (\<lambda>p. GoInt 0))"
    by (elim conjE)
  from inst have x: "exited ?F = list_ex ending (spec_run lib0 ?tc ?kvs ?resp (\<lambda>p. GoInt 0))"
    by (elim conjE)
  from inst have j: "expectJSON ?tc = None \<longrightarrow> AtJSON \<notin> sites ?F"
    by (elim conjE)
  have "events ?F = [(AtReadAll, Enter), (AtOutput, Log (Sprintln [''output:'' @ [newline], ''41''])),
         (AtCode, Enter),
         (AtCode, Error ''[GET /answer] unexpected response code: want 200, got 500''),
         (AtHeader ''Content-Type'', Enter),
         (AtRaw, Enter),
         (AtRaw, Error (''[GET /answer] raw output mismatch:'' @ [newline] @ ''want: 42''
            @ [newline] @ ''got: 41'')),
         (AtGrab, Enter),
         (AtGrab, Fatal (Sprintln [''invalid character'']))]"
    unfolding e s ..
  moreover have "failed ?F"
    unfolding f s by simp
  moreover have "exited ?F"
    unfolding x s by simp
  moreover have "AtJSON \<notin> sites ?F"
    using j by (simp add: newTestCase_def)
  moreover have "range_order [''Content-Type'' \<mapsto> ''application/json''] ?kvs"
    by (simp add: range_order_def)
  ultimately show ?thesis
    by (intro conjI)
qed

section \<open>The capture\<close>

text \<open>
  The run of \<open>fn\<close> is its step-by-step description; which steps end the test, and
  at which places the steps record.
\<close>

lemma fn_trace:
  assumes "buildRequest l tc = Inr req" and "Do (server tc) (jar tc) req = Inr resp"
  shows "events (fn l tc kvs (newT h)) = spec_run l tc kvs resp h"
    and "failed (fn l tc kvs (newT h)) = list_ex failing (spec_run l tc kvs resp h)"
    and "exited (fn l tc kvs (newT h)) = list_ex ending (spec_run l tc kvs resp h)"
    and "heap (fn l tc kvs (newT h)) = spec_heap l tc kvs resp h"
proof -
  have "\<not> exited (newT h :: 'a T)"
    by simp
  from assertions_run [OF this, of l tc kvs resp]
  show "events (fn l tc kvs (newT h)) = spec_run l tc kvs resp h"
    and "failed (fn l tc kvs (newT h)) = list_ex failing (spec_run l tc kvs resp h)"
    and "exited (fn l tc kvs (newT h)) = list_ex ending (spec_run l tc kvs resp h)"
    and "heap (fn l tc kvs (newT h)) = spec_heap l tc kvs resp h"
    by (simp_all add: fn_response [OF assms] spec_run_def ending_until_end)
qed

text \<open>Which steps can end the test.\<close>

lemma ending_spec_read [simp]: "list_ex ending (spec_read resp) = False"
  by (simp add: spec_read_def split: option.splits)

lemma ending_spec_output [simp]: "list_ex ending (spec_output raw) = False"
  by (simp add: spec_output_def)

lemma ending_spec_status:
  "list_ex ending (spec_status tc resp) =
     (fatalFailure tc \<and> expectCode tc \<noteq> 0 \<and> StatusCode resp \<noteq> expectCode tc)"
  by (simp add: spec_status_def failure_def)

lemma ending_spec_header:
  "list_ex ending (spec_header l tc resp kv) =
     (fatalFailure tc \<and> Header_Get (resp_Header resp) (fst kv) \<noteq> snd kv)"
  by (simp add: spec_header_def failure_def)

lemma ending_spec_headers:
  "list_ex ending (concat (map (spec_header l tc resp) kvs)) =
     (fatalFailure tc \<and> list_ex (\<lambda>kv. Header_Get (resp_Header resp) (fst kv) \<noteq> snd kv) kvs)"
  by (induction kvs) (auto simp add: ending_spec_header)

lemma ending_spec_raw:
  "list_ex ending (spec_raw tc raw) =
     (fatalFailure tc \<and> (case expectRaw tc of None \<Rightarrow> False | Some want \<Rightarrow> want \<noteq> raw))"
  by (simp add: spec_raw_def failure_def split: option.splits)

lemma ending_spec_structured:
  "list_ex ending (spec_structured l tc raw) =
     (structured_ends l tc raw
      \<or> (fatalFailure tc \<and>
          (case expectJSON tc of
            None \<Rightarrow> False
          | Some want \<Rightarrow>
              (case Unmarshal l raw (New_TypeOf l want) of
                 (Some err, out) \<Rightarrow> False
               | (None, out) \<Rightarrow>
                   (case Diff l want out (outputCmpOpt tc) of
                      Inl p \<Rightarrow> False
                    | Inr d \<Rightarrow> d \<noteq> [])))))"
  by (auto simp add: spec_structured_def structured_ends_def failure_def
      split: option.splits prod.splits sum.splits)

lemma ending_spec_checks:
  "list_ex ending (spec_checks l tc kvs resp) =
     ((fatalFailure tc \<and> mismatch l tc kvs resp) \<or> structured_ends l tc (fst (resp_Body resp)))"
  unfolding spec_checks_def mismatch_def
  by (simp add: ending_spec_status ending_spec_headers ending_spec_raw ending_spec_structured)
    blast

lemma until_end_subset: "set (until_end xs) \<subseteq> set xs"
  by (induction xs) auto

lemma until_end_nonempty: "xs \<noteq> [] \<Longrightarrow> until_end xs \<noteq> []"
  by (cases xs) auto

lemma last_until_end:
  "list_ex ending xs \<Longrightarrow> ending (last (until_end xs)) \<and> last (until_end xs) \<in> set xs"
proof (induction xs)
  case Nil
  then show ?case by simp
next
  case (Cons x xs)
  show ?case
  proof (cases "ending x")
    case True
    then show ?thesis by simp
  next
    case False
    with Cons.prems have "list_ex ending xs" by simp
    then have "xs \<noteq> []" by auto
    with Cons.IH [OF \<open>list_ex ending xs\<close>] False show ?thesis
      by (simp add: until_end_nonempty)
  qed
qed

text \<open>The places of the steps.\<close>

lemma sites_spec_read: "e \<in> set (spec_read resp) \<Longrightarrow> fst e = AtReadAll \<and> (\<forall>p. snd e \<noteq> Panic p)"
  by (auto simp add: spec_read_def split: option.splits)

lemma sites_spec_output: "e \<in> set (spec_output raw) \<Longrightarrow> fst e = AtOutput \<and> (\<forall>p. snd e \<noteq> Panic p)"
  by (auto simp add: spec_output_def)

lemma sites_spec_status:
  "e \<in> set (spec_status tc resp) \<Longrightarrow> fst e = AtCode \<and> (\<forall>p. snd e \<noteq> Panic p)"
  by (auto simp add: spec_status_def failure_def split: if_splits)

lemma sites_spec_headers:
  "e \<in> set (concat (map (spec_header l tc resp) kvs)) \<Longrightarrow>
     (\<exists>k. fst e = AtHeader k) \<and> (\<forall>p. snd e \<noteq> Panic p)"
  by (auto simp add: spec_header_def failure_def split: if_splits)

lemma sites_spec_raw:
  "e \<in> set (spec_raw tc raw) \<Longrightarrow> fst e = AtRaw \<and> (\<forall>p. snd e \<noteq> Panic p)"
  by (auto simp add: spec_raw_def failure_def split: if_splits option.splits)

lemma sites_spec_structured_all:
  "list_all (\<lambda>e. fst e = AtJSON) (spec_structured l tc raw)"
  by (simp add: spec_structured_def failure_def split: option.splits prod.splits sum.splits)

lemma sites_spec_structured:
  "e \<in> set (spec_structured l tc raw) \<Longrightarrow> fst e = AtJSON"
  using sites_spec_structured_all [of l tc raw] by (simp add: list_all_iff)

lemma sites_spec_checks:
  assumes "e \<in> set (spec_checks l tc kvs resp)"
  shows "phase (fst e) \<le> 6"
proof -
  from assms consider "e \<in> set (spec_read resp)"
    | "e \<in> set (spec_output (fst (resp_Body resp)))"
    | "e \<in> set (spec_status tc resp)"
    | "e \<in> set (concat (map (spec_header l tc resp) kvs))"
    | "e \<in> set (spec_raw tc (fst (resp_Body resp)))"
    | "e \<in> set (spec_structured l tc (fst (resp_Body resp)))"
    unfolding spec_checks_def by (auto simp del: set_concat)
  then show ?thesis
  proof cases
    case 1
    then show ?thesis using sites_spec_read by fastforce
  next
    case 2
    then show ?thesis using sites_spec_output by fastforce
  next
    case 3
    then show ?thesis using sites_spec_status by fastforce
  next
    case 4
    then show ?thesis using sites_spec_headers [of e l tc resp kvs] by fastforce
  next
    case 5
    then show ?thesis using sites_spec_raw by fastforce
  next
    case 6
    then show ?thesis using sites_spec_structured by fastforce
  qed
qed

lemma aborted_by_prefix:
  assumes ev: "events t = until_end (xs @ ys)" and ex: "exited t" and fl: "failed t"
    and en: "list_ex ending xs"
    and np: "\<And>e p. e \<in> set xs \<Longrightarrow> snd e \<noteq> Panic p"
    and ph: "\<And>e. e \<in> set xs \<Longrightarrow> phase (fst e) \<le> k"
  shows "aborted_by k t"
proof -
  have e: "events t = until_end xs"
    using ev en by (simp add: until_end_append)
  from last_until_end [OF en] have l: "ending (last (until_end xs))"
    and m: "last (until_end xs) \<in> set xs"
    by simp_all
  obtain s a where sa: "last (until_end xs) = (s, a)"
    by (cases "last (until_end xs)")
  have "\<exists>msg. a = Fatal msg"
    using l np [OF m] sa by (cases a) auto
  moreover have "until_end xs \<noteq> []"
  proof -
    from en have "xs \<noteq> []" by auto
    then show ?thesis by (rule until_end_nonempty)
  qed
  moreover have "list_all (\<lambda>e. phase (fst e) \<le> k) (until_end xs)"
    using ph until_end_subset [of xs] by (auto simp add: list_all_iff)
  ultimately show ?thesis
    using ex fl e sa by (auto simp add: aborted_by_def ended_by_Fatal_def)
qed

lemma mismatch_status:
  "expectCode tc \<noteq> 0 \<Longrightarrow> StatusCode resp \<noteq> expectCode tc \<Longrightarrow> mismatch l tc kvs resp"
  by (simp add: mismatch_def)

lemma mismatch_header:
  "(k, v) \<in> set kvs \<Longrightarrow> Header_Get (resp_Header resp) k \<noteq> v \<Longrightarrow> mismatch l tc kvs resp"
  by (force simp add: mismatch_def list_ex_iff)

lemma mismatch_raw:
  "expectRaw tc = Some want \<Longrightarrow> want \<noteq> fst (resp_Body resp) \<Longrightarrow> mismatch l tc kvs resp"
  by (simp add: mismatch_def)

lemma mismatch_diff:
  "expectJSON tc = Some want \<Longrightarrow>
   Unmarshal l (fst (resp_Body resp)) (New_TypeOf l want) = (None, out) \<Longrightarrow>
   Diff l want out (outputCmpOpt tc) = Inr d \<Longrightarrow> d \<noteq> [] \<Longrightarrow> mismatch l tc kvs resp"
  by (simp add: mismatch_def)

lemma structured_ends_decode:
  "expectJSON tc = Some want \<Longrightarrow> Unmarshal l raw (New_TypeOf l want) = (Some err, out) \<Longrightarrow>
     structured_ends l tc raw"
  by (simp add: structured_ends_def)

lemma structured_ends_panic:
  "expectJSON tc = Some want \<Longrightarrow> Unmarshal l raw (New_TypeOf l want) = (None, out) \<Longrightarrow>
   Diff l want out (outputCmpOpt tc) = Inl p \<Longrightarrow> structured_ends l tc raw"
  by (simp add: structured_ends_def)

lemma structured_returns:
  assumes "\<forall>want. expectJSON tc = Some want \<longrightarrow>
      (\<exists>out d. Unmarshal l raw (New_TypeOf l want) = (None, out)
         \<and> Diff l want out (outputCmpOpt tc) = Inr d)"
  shows "\<not> structured_ends l tc raw"
  using assms by (auto simp add: structured_ends_def split: option.splits)

text \<open>The run when the capture is reached, and when it is not.\<close>

lemma capture_reached:
  assumes "buildRequest l tc = Inr req" and "Do (server tc) (jar tc) req = Inr resp"
    and g: "grabOutput tc = Some p"
    and ne: "\<not> (fatalFailure tc \<and> mismatch l tc kvs resp)"
      "\<not> structured_ends l tc (fst (resp_Body resp))"
  shows "heap (fn l tc kvs (newT h)) p = snd (Unmarshal l (fst (resp_Body resp)) (h p))"
    and "(AtGrab, Enter) \<in> set (events (fn l tc kvs (newT h)))"
    and "fst (Unmarshal l (fst (resp_Body resp)) (h p)) = Some err \<Longrightarrow>
           exited (fn l tc kvs (newT h)) \<and> failed (fn l tc kvs (newT h))
         \<and> last (events (fn l tc kvs (newT h))) = (AtGrab, Fatal (Sprintln [err]))"
    and "fst (Unmarshal l (fst (resp_Body resp)) (h p)) = None \<Longrightarrow>
           \<not> exited (fn l tc kvs (newT h))"
proof -
  let ?raw = "fst (resp_Body resp)"
  note tr = fn_trace [OF assms(1,2), of kvs h]
  have n: "\<not> list_ex ending (spec_checks l tc kvs resp)"
    using ne by (simp add: ending_spec_checks)
  have ev: "events (fn l tc kvs (newT h)) =
      spec_checks l tc kvs resp @ spec_capture l tc ?raw h"
    using n by (simp add: tr spec_run_def until_end_append until_end_spec_capture)
  show "heap (fn l tc kvs (newT h)) p = snd (Unmarshal l ?raw (h p))"
    using n g by (simp add: tr spec_heap_def)
  show "(AtGrab, Enter) \<in> set (events (fn l tc kvs (newT h)))"
    using g by (simp add: ev spec_capture_def)
  show "exited (fn l tc kvs (newT h)) \<and> failed (fn l tc kvs (newT h))
         \<and> last (events (fn l tc kvs (newT h))) = (AtGrab, Fatal (Sprintln [err]))"
    if "fst (Unmarshal l ?raw (h p)) = Some err"
    using that g n
    by (simp add: tr(2,3) ev [unfolded tr(1)] ev spec_capture_def)
  show "\<not> exited (fn l tc kvs (newT h))"
    if "fst (Unmarshal l ?raw (h p)) = None"
    using that g n
    by (simp add: tr(3) ev [unfolded tr(1)] spec_capture_def)
qed

lemma capture_not_reached:
  assumes "buildRequest l tc = Inr req" and "Do (server tc) (jar tc) req = Inr resp"
    and g: "grabOutput tc = Some p"
    and e: "(fatalFailure tc \<and> mismatch l tc kvs resp) \<or> structured_ends l tc (fst (resp_Body resp))"
  shows "exited (fn l tc kvs (newT h)) \<and> failed (fn l tc kvs (newT h))
       \<and> heap (fn l tc kvs (newT h)) = h \<and> AtGrab \<notin> sites (fn l tc kvs (newT h))"
proof -
  let ?raw = "fst (resp_Body resp)"
  note tr = fn_trace [OF assms(1,2), of kvs h]
  have n: "list_ex ending (spec_checks l tc kvs resp)"
    using e by (simp add: ending_spec_checks)
  have ev: "events (fn l tc kvs (newT h)) = until_end (spec_checks l tc kvs resp)"
    using n by (simp add: tr spec_run_def until_end_append)
  have "AtGrab \<notin> sites (fn l tc kvs (newT h))"
  proof
    assume "AtGrab \<in> sites (fn l tc kvs (newT h))"
    then obtain e where "e \<in> set (until_end (spec_checks l tc kvs resp))" "fst e = AtGrab"
      by (auto simp add: sites_def ev)
    with until_end_subset [of "spec_checks l tc kvs resp"] sites_spec_checks [of e l tc kvs resp]
    show False by auto
  qed
  moreover have "exited (fn l tc kvs (newT h))"
    using n by (simp add: tr(3) ev [unfolded tr(1)] ending_until_end)
  moreover have "failed (fn l tc kvs (newT h))"
    using n by (simp add: tr(2) ev [unfolded tr(1)] ended_failed)
  moreover have "heap (fn l tc kvs (newT h)) = h"
    using n g by (simp add: tr spec_heap_def)
  ultimately show ?thesis
    by simp
qed

lemma range_order_member:
  "range_order m kvs \<Longrightarrow> ((k, v) \<in> set kvs) = (m k = Some v)"
  by (auto simp add: range_order_def)

text \<open>
  Claim C5, amended.  With a capture target configured, the body is decoded into the
  target, and a decode failure there is fatal, exactly in the runs that no earlier step
  ended: fail-fast is unset or none of the four comparisons found a mismatch, and the
  structured step (if configured) decoded the body and its comparison did not panic.
  In every other run (a mismatch under fail-fast, a failed structured decode, a panic
  of the comparison) the test has ended and failed before the capture, which records
  nothing and leaves the store as it was.  With fail-fast unset and a structured step
  that returns, the target is decoded whatever the outcomes of the comparisons.
\<close>

theorem capture_when_reached:
  assumes "buildRequest l tc = Inr req" and "Do (server tc) (jar tc) req = Inr resp"
    and "grabOutput tc = Some p" and r: "range_order (expectHeaders tc) kvs"
  shows "(\<not> (fatalFailure tc \<and> mismatch l tc kvs resp)
            \<and> \<not> structured_ends l tc (fst (resp_Body resp)) \<longrightarrow>
            heap (fn l tc kvs (newT h)) p = snd (Unmarshal l (fst (resp_Body resp)) (h p))
          \<and> (AtGrab, Enter) \<in> set (events (fn l tc kvs (newT h)))
          \<and> (\<forall>err. fst (Unmarshal l (fst (resp_Body resp)) (h p)) = Some err \<longrightarrow>
                exited (fn l tc kvs (newT h)) \<and> failed (fn l tc kvs (newT h))
              \<and> last (events (fn l tc kvs (newT h))) = (AtGrab, Fatal (Sprintln [err])))
          \<and> (fst (Unmarshal l (fst (resp_Body resp)) (h p)) = None \<longrightarrow>
                \<not> exited (fn l tc kvs (newT h))))
       \<and> ((fatalFailure tc \<and> mismatch l tc kvs resp)
            \<or> structured_ends l tc (fst (resp_Body resp)) \<longrightarrow>
            exited (fn l tc kvs (newT h)) \<and> failed (fn l tc kvs (newT h))
          \<and> heap (fn l tc kvs (newT h)) = h \<and> AtGrab \<notin> sites (fn l tc kvs (newT h)))
       \<and> (\<not> fatalFailure tc
            \<and> (\<forall>want. expectJSON tc = Some want \<longrightarrow>
                  (\<exists>out d. Unmarshal l (fst (resp_Body resp)) (New_TypeOf l want) = (None, out)
                     \<and> Diff l want out (outputCmpOpt tc) = Inr d)) \<longrightarrow>
            heap (fn l tc kvs (newT h)) p = snd (Unmarshal l (fst (resp_Body resp)) (h p)))
       \<and> (fatalFailure tc \<and> expectCode tc \<noteq> 0 \<and> StatusCode resp \<noteq> expectCode tc \<longrightarrow>
            heap (fn l tc kvs (newT h)) = h \<and> AtGrab \<notin> sites (fn l tc kvs (newT h)))
       \<and> (fatalFailure tc
            \<and> (\<exists>k v. expectHeaders tc k = Some v \<and> Header_Get (resp_Header resp) k \<noteq> v) \<longrightarrow>
            heap (fn l tc kvs (newT h)) = h \<and> AtGrab \<notin> sites (fn l tc kvs (newT h)))
       \<and> (fatalFailure tc
            \<and> (\<exists>want. expectRaw tc = Some want \<and> want \<noteq> fst (resp_Body resp)) \<longrightarrow>
            heap (fn l tc kvs (newT h)) = h \<and> AtGrab \<notin> sites (fn l tc kvs (newT h)))
       \<and> (fatalFailure tc
            \<and> (\<exists>want out d. expectJSON tc = Some want
                  \<and> Unmarshal l (fst (resp_Body resp)) (New_TypeOf l want) = (None, out)
                  \<and> Diff l want out (outputCmpOpt tc) = Inr d \<and> d \<noteq> []) \<longrightarrow>
            heap (fn l tc kvs (newT h)) = h \<and> AtGrab \<notin> sites (fn l tc kvs (newT h)))
       \<and> ((\<exists>want err out. expectJSON tc = Some want
              \<and> Unmarshal l (fst (resp_Body resp)) (New_TypeOf l want) = (Some err, out)) \<longrightarrow>
            heap (fn l tc kvs (newT h)) = h \<and> AtGrab \<notin> sites (fn l tc kvs (newT h)))
       \<and> ((\<exists>want out q. expectJSON tc = Some want
              \<and> Unmarshal l (fst (resp_Body resp)) (New_TypeOf l want) = (None, out)
              \<and> Diff l want out (outputCmpOpt tc) = Inl q) \<longrightarrow>
            heap (fn l tc kvs (newT h)) = h \<and> AtGrab \<notin> sites (fn l tc kvs (newT h)))"
proof -
  let ?raw = "fst (resp_Body resp)"
  let ?F = "fn l tc kvs (newT h)"
  note reached = capture_reached [OF assms(1-3), of kvs h]
  note skipped = capture_not_reached [OF assms(1-3), of kvs h]
  have 1: "\<not> (fatalFailure tc \<and> mismatch l tc kvs resp) \<and> \<not> structured_ends l tc ?raw \<longrightarrow>
            heap ?F p = snd (Unmarshal l ?raw (h p))
          \<and> (AtGrab, Enter) \<in> set (events ?F)
          \<and> (\<forall>err. fst (Unmarshal l ?raw (h p)) = Some err \<longrightarrow>
                exited ?F \<and> failed ?F \<and> last (events ?F) = (AtGrab, Fatal (Sprintln [err])))
          \<and> (fst (Unmarshal l ?raw (h p)) = None \<longrightarrow> \<not> exited ?F)"
    using reached by blast
  have 2: "(fatalFailure tc \<and> mismatch l tc kvs resp) \<or> structured_ends l tc ?raw \<longrightarrow>
            exited ?F \<and> failed ?F \<and> heap ?F = h \<and> AtGrab \<notin> sites ?F"
    using skipped by blast
  have 3: "\<not> fatalFailure tc
            \<and> (\<forall>want. expectJSON tc = Some want \<longrightarrow>
                  (\<exists>out d. Unmarshal l ?raw (New_TypeOf l want) = (None, out)
                     \<and> Diff l want out (outputCmpOpt tc) = Inr d)) \<longrightarrow>
            heap ?F p = snd (Unmarshal l ?raw (h p))"
    using reached(1) structured_returns [of tc l ?raw] by blast
  have 4: "fatalFailure tc \<and> expectCode tc \<noteq> 0 \<and> StatusCode resp \<noteq> expectCode tc \<longrightarrow>
            heap ?F = h \<and> AtGrab \<notin> sites ?F"
    using skipped mismatch_status [of tc resp l kvs] by blast
  have 5: "fatalFailure tc
            \<and> (\<exists>k v. expectHeaders tc k = Some v \<and> Header_Get (resp_Header resp) k \<noteq> v) \<longrightarrow>
            heap ?F = h \<and> AtGrab \<notin> sites ?F"
    using skipped mismatch_header [of _ _ kvs resp l tc] range_order_member [OF r] by blast
  have 6: "fatalFailure tc \<and> (\<exists>want. expectRaw tc = Some want \<and> want \<noteq> ?raw) \<longrightarrow>
            heap ?F = h \<and> AtGrab \<notin> sites ?F"
    using skipped mismatch_raw [of tc _ resp l kvs] by blast
  have 7: "fatalFailure tc
            \<and> (\<exists>want out d. expectJSON tc = Some want
                  \<and> Unmarshal l ?raw (New_TypeOf l want) = (None, out)
                  \<and> Diff l want out (outputCmpOpt tc) = Inr d \<and> d \<noteq> []) \<longrightarrow>
            heap ?F = h \<and> AtGrab \<notin> sites ?F"
    using skipped mismatch_diff [of tc _ l resp _ _ kvs] by blast
  have 8: "(\<exists>want err out. expectJSON tc = Some want
              \<and> Unmarshal l ?raw (New_TypeOf l want) = (Some err, out)) \<longrightarrow>
            heap ?F = h \<and> AtGrab \<notin> sites ?F"
    using skipped structured_ends_decode [of tc _ l ?raw] by blast
  have 9: "(\<exists>want out q. expectJSON tc = Some want
              \<and> Unmarshal l ?raw (New_TypeOf l want) = (None, out)
              \<and> Diff l want out (outputCmpOpt tc) = Inl q) \<longrightarrow>
            heap ?F = h \<and> AtGrab \<notin> sites ?F"
    using skipped structured_ends_panic [of tc _ l ?raw] by blast
  from 1 2 3 4 5 6 7 8 9 show ?thesis
    by (intro conjI)
qed

text \<open>
  Claim C5 as stated (the body is decoded into the capture target regardless of the
  prior outcomes) fails: with fail-fast set, a status mismatch ends the test, and the
  capture target keeps its value although the body \<open>42\<close> decodes.
\<close>

theorem capture_skipped_by_fail_fast_counterexample:
  "grabOutput ((newTestCase (answering 500 Map.empty (''42'', None)) ''GET'' ''/answer'' :: (scalar, unit) testCase)
        \<lparr>expectCode := 200, grabOutput := Some 0, fatalFailure := True\<rparr>) = Some 0
   \<and> snd (Unmarshal lib0 ''42'' (GoInt 0)) = GoInt 42
   \<and> heap (fn lib0
        ((newTestCase (answering 500 Map.empty (''42'', None)) ''GET'' ''/answer'')
           \<lparr>expectCode := 200, grabOutput := Some 0, fatalFailure := True\<rparr>)
        [] (newT (\<lambda>p. GoInt 0))) 0 = GoInt 0
   \<and> events (fn lib0
        ((newTestCase (answering 500 Map.empty (''42'', None)) ''GET'' ''/answer'')
           \<lparr>expectCode := 200, grabOutput := Some 0, fatalFailure := True\<rparr>)
        [] (newT (\<lambda>p. GoInt 0)))
      = [(AtReadAll, Enter), (AtOutput, Log (Sprintln [''output:'' @ [newline], ''42''])),
         (AtCode, Enter),
         (AtCode, Fatal ''[GET /answer] unexpected response code: want 200, got 500'')]"
proof -
  let ?s = "answering 500 Map.empty (''42'', None)"
  let ?tc = "(newTestCase ?s ''GET'' ''/answer'' :: (scalar, unit) testCase)
           \<lparr>expectCode := 200, grabOutput := Some 0, fatalFailure := True\<rparr>"
  let ?req = "\<lparr>req_Method = ''GET'', req_URL = URL ?s @ ''/answer'', req_Header = Map.empty,
      req_Body = None\<rparr>"
  let ?resp = "\<lparr>StatusCode = 500, resp_Header = Map.empty, resp_Body = (''42'', None)\<rparr>"
  have b: "buildRequest lib0 ?tc = Inr ?req"
    by (simp add: buildRequest_lib0 newTestCase_def)
  have d: "Do (server ?tc) (jar ?tc) ?req = Inr ?resp"
    by (simp add: Do_answering newTestCase_def)
  have run: "fn lib0 ?tc [] (newT (\<lambda>p. GoInt 0)) =
      t_Fatal AtCode ''[GET /answer] unexpected response code: want 200, got 500''
        (enter AtCode (t_Log AtOutput (Sprintln [''output:'' @ [newline], ''42''])
          (enter AtReadAll (newT (\<lambda>p. GoInt 0)))))"
    by (subst fn_eval [OF b d])
      (simp add: seq_def read_body_def log_output_def check_code_def fail_def msg_code_def
        tag_def itoa_200 itoa_500 newTestCase_def)
  show ?thesis
    unfolding run by (simp add: lib0_def)
qed

theorem capture_when_reached_witness:
  "heap (fn lib0
        ((newTestCase (answering 500 Map.empty (''42'', None)) ''GET'' ''/answer'')
           \<lparr>expectCode := 200, expectJSON := Some (GoInt 7), grabOutput := Some 0\<rparr>)
        [] (newT (\<lambda>p. GoInt 0))) 0 = GoInt 42
   \<and> (AtGrab, Enter) \<in> set (events (fn lib0
        ((newTestCase (answering 500 Map.empty (''42'', None)) ''GET'' ''/answer'')
           \<lparr>expectCode := 200, expectJSON := Some (GoInt 7), grabOutput := Some 0\<rparr>)
        [] (newT (\<lambda>p. GoInt 0))))
   \<and> \<not> exited (fn lib0
        ((newTestCase (answering 500 Map.empty (''42'', None)) ''GET'' ''/answer'')
           \<lparr>expectCode := 200, expectJSON := Some (GoInt 7), grabOutput := Some 0\<rparr>)
        [] (newT (\<lambda>p. GoInt 0)))
   \<and> heap (fn lib0
        ((newTestCase (answering 200 Map.empty (''oops'', None)) ''GET'' ''/answer'')
           \<lparr>expectCode := 200, expectJSON := Some (GoInt 42), grabOutput := Some 0\<rparr>)
        [] (newT (\<lambda>p. GoInt 0))) = (\<lambda>p. GoInt 0)
   \<and> AtGrab \<notin> sites (fn lib0
        ((newTestCase (answering 200 Map.empty (''oops'', None)) ''GET'' ''/answer'')
           \<lparr>expectCode := 200, expectJSON := Some (GoInt 42), grabOutput := Some 0\<rparr>)
        [] (newT (\<lambda>p. GoInt 0)))"
proof -
  let ?s = "answering 500 Map.empty (''42'', None)"
  let ?tc = "(newTestCase ?s ''GET'' ''/answer'' :: (scalar, unit) testCase)
           \<lparr>expectCode := 200, expectJSON := Some (GoInt 7), grabOutput := Some 0\<rparr>"
  let ?req = "\<lparr>req_Method = ''GET'', req_URL = URL ?s @ ''/answer'', req_Header = Map.empty,
      req_Body = None\<rparr>"
  let ?resp = "\<lparr>StatusCode = 500, resp_Header = Map.empty, resp_Body = (''42'', None)\<rparr>"
  let ?u = "answering 200 Map.empty (''oops'', None)"
  let ?bad = "(newTestCase ?u ''GET'' ''/answer'' :: (scalar, unit) testCase)
           \<lparr>expectCode := 200, expectJSON := Some (GoInt 42), grabOutput := Some 0\<rparr>"
  let ?requ = "\<lparr>req_Method = ''GET'', req_URL = URL ?u @ ''/answer'', req_Header = Map.empty,
      req_Body = None\<rparr>"
  let ?respu = "\<lparr>StatusCode = 200, resp_Header = Map.empty, resp_Body = (''oops'', None)\<rparr>"
  have b: "buildRequest lib0 ?tc = Inr ?req"
    by (simp add: buildRequest_lib0 newTestCase_def)
  have d: "Do (server ?tc) (jar ?tc) ?req = Inr ?resp"
    by (simp add: Do_answering newTestCase_def)
  have g: "grabOutput ?tc = Some 0"
    by simp
  have r: "range_order (expectHeaders ?tc) []"
    by (simp add: range_order_def newTestCase_def)
  have bu: "buildRequest lib0 ?bad = Inr ?requ"
    by (simp add: buildRequest_lib0 newTestCase_def)
  have du: "Do (server ?bad) (jar ?bad) ?requ = Inr ?respu"
    by (simp add: Do_answering newTestCase_def)
  have gu: "grabOutput ?bad = Some 0"
    by simp
  have ru: "range_order (expectHeaders ?bad) []"
    by (simp add: range_order_def newTestCase_def)
  have reached: "heap (fn lib0 ?tc [] (newT (\<lambda>p. GoInt 0))) 0 = GoInt 42
      \<and> (AtGrab, Enter) \<in> set (events (fn lib0 ?tc [] (newT (\<lambda>p. GoInt 0))))
      \<and> \<not> exited (fn lib0 ?tc [] (newT (\<lambda>p. GoInt 0)))"
    using capture_when_reached [OF b d g r, of "\<lambda>p. GoInt 0"]
    by (simp add: structured_ends_def lib0_def newTestCase_def)
  have skipped: "heap (fn lib0 ?bad [] (newT (\<lambda>p. GoInt 0))) = (\<lambda>p. GoInt 0)
      \<and> AtGrab \<notin> sites (fn lib0 ?bad [] (newT (\<lambda>p. GoInt 0)))"
    using capture_when_reached [OF bu du gu ru, of "\<lambda>p. GoInt 0"]
    by (simp add: structured_ends_def lib0_def newTestCase_def)
  from reached skipped show ?thesis
    by (intro conjI) (elim conjE, assumption)+
qed

section \<open>The failure policy\<close>

text \<open>
  Runs ended by a fatal failure of one of the steps, and runs without fail-fast.
\<close>

lemma failed_iff:
  assumes "buildRequest l tc = Inr req" and "Do (server tc) (jar tc) req = Inr resp"
  shows "failed (fn l tc kvs (newT h)) = list_ex failing (events (fn l tc kvs (newT h)))"
  using fn_trace [OF assms, of kvs h] by simp

lemma recorded_failed:
  assumes "buildRequest l tc = Inr req" and "Do (server tc) (jar tc) req = Inr resp"
    and "(s, Error m) \<in> set (events (fn l tc kvs (newT h)))"
  shows "failed (fn l tc kvs (newT h))"
  using assms(3) unfolding failed_iff [OF assms(1,2)] list_ex_iff by force

lemma ended_run:
  assumes "buildRequest l tc = Inr req" and "Do (server tc) (jar tc) req = Inr resp"
    and n: "list_ex ending (spec_checks l tc kvs resp)"
  shows "exited (fn l tc kvs (newT h))" and "failed (fn l tc kvs (newT h))"
    and "events (fn l tc kvs (newT h)) = until_end (spec_checks l tc kvs resp)"
proof -
  note tr = fn_trace [OF assms(1,2), of kvs h]
  show ev: "events (fn l tc kvs (newT h)) = until_end (spec_checks l tc kvs resp)"
    using n by (simp add: tr spec_run_def until_end_append)
  show "exited (fn l tc kvs (newT h))"
    using n by (simp add: tr(3) ev [unfolded tr(1)] ending_until_end)
  show "failed (fn l tc kvs (newT h))"
    using n by (simp add: tr(2) ev [unfolded tr(1)] ended_failed)
qed

lemma aborted_at:
  assumes "buildRequest l tc = Inr req" and "Do (server tc) (jar tc) req = Inr resp"
    and sp: "spec_checks l tc kvs resp = xs @ ys"
    and en: "list_ex ending xs"
    and np: "\<And>e p. e \<in> set xs \<Longrightarrow> snd e \<noteq> Panic p"
    and ph: "\<And>e. e \<in> set xs \<Longrightarrow> phase (fst e) \<le> k"
  shows "aborted_by k (fn l tc kvs (newT h))"
proof -
  have n: "list_ex ending (spec_checks l tc kvs resp)"
    using en by (simp add: sp)
  note e = ended_run [OF assms(1,2) n, of h]
  show ?thesis
    using e(3) e(1) e(2) en np ph unfolding sp by (rule aborted_by_prefix)
qed

lemma fail_fast_status:
  assumes "buildRequest l tc = Inr req" and "Do (server tc) (jar tc) req = Inr resp"
    and "fatalFailure tc" and "expectCode tc \<noteq> 0" and "StatusCode resp \<noteq> expectCode tc"
  shows "aborted_by 3 (fn l tc kvs (newT h))"
proof (rule aborted_at [OF assms(1,2)])
  let ?xs = "spec_read resp @ spec_output (fst (resp_Body resp)) @ spec_status tc resp"
  show "spec_checks l tc kvs resp = ?xs @
      (concat (map (spec_header l tc resp) kvs) @ spec_raw tc (fst (resp_Body resp)) @
       spec_structured l tc (fst (resp_Body resp)))"
    by (simp add: spec_checks_def)
  show "list_ex ending ?xs"
    using assms(3-5) by (simp add: ending_spec_status)
  show "snd e \<noteq> Panic p" if "e \<in> set ?xs" for e p
    using that sites_spec_read [of e resp] sites_spec_output [of e "fst (resp_Body resp)"]
      sites_spec_status [of e tc resp] by auto
  show "phase (fst e) \<le> 3" if "e \<in> set ?xs" for e
    using that sites_spec_read [of e resp] sites_spec_output [of e "fst (resp_Body resp)"]
      sites_spec_status [of e tc resp] by auto
qed

lemma fail_fast_header:
  assumes "buildRequest l tc = Inr req" and "Do (server tc) (jar tc) req = Inr resp"
    and "fatalFailure tc" and "(k, v) \<in> set kvs" and "Header_Get (resp_Header resp) k \<noteq> v"
  shows "aborted_by 4 (fn l tc kvs (newT h))"
proof (rule aborted_at [OF assms(1,2)])
  let ?xs = "spec_read resp @ spec_output (fst (resp_Body resp)) @ spec_status tc resp @
      concat (map (spec_header l tc resp) kvs)"
  show "spec_checks l tc kvs resp = ?xs @
      (spec_raw tc (fst (resp_Body resp)) @ spec_structured l tc (fst (resp_Body resp)))"
    by (simp add: spec_checks_def)
  have "list_ex (\<lambda>kv. Header_Get (resp_Header resp) (fst kv) \<noteq> snd kv) kvs"
    using assms(4,5) by (force simp add: list_ex_iff)
  then show "list_ex ending ?xs"
    using assms(3) by (simp add: ending_spec_headers)
  show "snd e \<noteq> Panic p" if "e \<in> set ?xs" for e p
    using that sites_spec_read [of e resp] sites_spec_output [of e "fst (resp_Body resp)"]
      sites_spec_status [of e tc resp] sites_spec_headers [of e l tc resp kvs]
    by (auto simp del: set_concat)
  show "phase (fst e) \<le> 4" if "e \<in> set ?xs" for e
    using that sites_spec_read [of e resp] sites_spec_output [of e "fst (resp_Body resp)"]
      sites_spec_status [of e tc resp] sites_spec_headers [of e l tc resp kvs]
    by (auto simp del: set_concat)
qed

lemma fail_fast_raw:
  assumes "buildRequest l tc = Inr req" and "Do (server tc) (jar tc) req = Inr resp"
    and "fatalFailure tc" and "expectRaw tc = Some want" and "want \<noteq> fst (resp_Body resp)"
  shows "aborted_by 5 (fn l tc kvs (newT h))"
proof (rule aborted_at [OF assms(1,2)])
  let ?xs = "spec_read resp @ spec_output (fst (resp_Body resp)) @ spec_status tc resp @
      concat (map (spec_header l tc resp) kvs) @ spec_raw tc (fst (resp_Body resp))"
  show "spec_checks l tc kvs resp = ?xs @ spec_structured l tc (fst (resp_Body resp))"
    by (simp add: spec_checks_def)
  show "list_ex ending ?xs"
    using assms(3-5) by (simp add: ending_spec_raw)
  show "snd e \<noteq> Panic p" if "e \<in> set ?xs" for e p
    using that sites_spec_read [of e resp] sites_spec_output [of e "fst (resp_Body resp)"]
      sites_spec_status [of e tc resp] sites_spec_headers [of e l tc resp kvs]
      sites_spec_raw [of e tc "fst (resp_Body resp)"]
    by (auto simp del: set_concat)
  show "phase (fst e) \<le> 5" if "e \<in> set ?xs" for e
    using that sites_spec_read [of e resp] sites_spec_output [of e "fst (resp_Body resp)"]
      sites_spec_status [of e tc resp] sites_spec_headers [of e l tc resp kvs]
      sites_spec_raw [of e tc "fst (resp_Body resp)"]
    by (auto simp del: set_concat)
qed

lemma no_panic_structured:
  assumes "\<And>want out q. expectJSON tc = Some want \<Longrightarrow>
      Unmarshal l raw (New_TypeOf l want) = (None, out) \<Longrightarrow>
      Diff l want out (outputCmpOpt tc) \<noteq> Inl q"
  shows "list_all (\<lambda>e. \<forall>p. snd e \<noteq> Panic p) (spec_structured l tc raw)"
  using assms
  by (auto simp add: spec_structured_def failure_def split: option.splits prod.splits sum.splits)

lemma aborted_in_structured:
  assumes "buildRequest l tc = Inr req" and "Do (server tc) (jar tc) req = Inr resp"
    and en: "list_ex ending (spec_structured l tc (fst (resp_Body resp)))"
    and np: "\<And>want out q. expectJSON tc = Some want \<Longrightarrow>
      Unmarshal l (fst (resp_Body resp)) (New_TypeOf l want) = (None, out) \<Longrightarrow>
      Diff l want out (outputCmpOpt tc) \<noteq> Inl q"
  shows "aborted_by 6 (fn l tc kvs (newT h))"
proof (rule aborted_at [OF assms(1,2)])
  let ?xs = "spec_checks l tc kvs resp"
  show "spec_checks l tc kvs resp = ?xs @ []"
    by simp
  show "list_ex ending ?xs"
    using en by (simp add: spec_checks_def)
  show "phase (fst e) \<le> 6" if "e \<in> set ?xs" for e
    using that by (rule sites_spec_checks)
  show "snd e \<noteq> Panic p" if "e \<in> set ?xs" for e p
  proof -
    from that consider "e \<in> set (spec_read resp)"
      | "e \<in> set (spec_output (fst (resp_Body resp)))"
      | "e \<in> set (spec_status tc resp)"
      | "e \<in> set (concat (map (spec_header l tc resp) kvs))"
      | "e \<in> set (spec_raw tc (fst (resp_Body resp)))"
      | "e \<in> set (spec_structured l tc (fst (resp_Body resp)))"
      unfolding spec_checks_def by (auto simp del: set_concat)
    then show ?thesis
    proof cases
      case 1
      then show ?thesis using sites_spec_read by fastforce
    next
      case 2
      then show ?thesis using sites_spec_output by fastforce
    next
      case 3
      then show ?thesis using sites_spec_status by fastforce
    next
      case 4
      then show ?thesis using sites_spec_headers [of e l tc resp kvs] by fastforce
    next
      case 5
      then show ?thesis using sites_spec_raw by fastforce
    next
      case 6
      then show ?thesis
        using no_panic_structured [of tc l "fst (resp_Body resp)", OF np]
        by (simp add: list_all_iff)
    qed
  qed
qed

lemma fail_fast_diff:
  assumes "buildRequest l tc = Inr req" and "Do (server tc) (jar tc) req = Inr resp"
    and "fatalFailure tc" and "expectJSON tc = Some want"
    and "Unmarshal l (fst (resp_Body resp)) (New_TypeOf l want) = (None, out)"
    and "Diff l want out (outputCmpOpt tc) = Inr d" and "d \<noteq> []"
  shows "aborted_by 6 (fn l tc kvs (newT h))"
proof (rule aborted_in_structured [OF assms(1,2)])
  show "list_ex ending (spec_structured l tc (fst (resp_Body resp)))"
    using assms(3-7) by (simp add: ending_spec_structured)
  show "Diff l w out' (outputCmpOpt tc) \<noteq> Inl q"
    if "expectJSON tc = Some w" "Unmarshal l (fst (resp_Body resp)) (New_TypeOf l w) = (None, out')"
    for w out' q
    using that assms(4-6) by auto
qed

lemma decode_failure_fatal:
  assumes "buildRequest l tc = Inr req" and "Do (server tc) (jar tc) req = Inr resp"
    and "expectJSON tc = Some want"
    and "Unmarshal l (fst (resp_Body resp)) (New_TypeOf l want) = (Some err, out)"
  shows "aborted_by 6 (fn l tc kvs (newT h))"
proof (rule aborted_in_structured [OF assms(1,2)])
  show "list_ex ending (spec_structured l tc (fst (resp_Body resp)))"
    using assms(3,4) by (simp add: ending_spec_structured structured_ends_def)
  show "Diff l w out' (outputCmpOpt tc) \<noteq> Inl q"
    if "expectJSON tc = Some w" "Unmarshal l (fst (resp_Body resp)) (New_TypeOf l w) = (None, out')"
    for w out' q
    using that assms(3,4) by auto
qed

lemma diff_panic_ends:
  assumes "buildRequest l tc = Inr req" and "Do (server tc) (jar tc) req = Inr resp"
    and "expectJSON tc = Some want"
    and "Unmarshal l (fst (resp_Body resp)) (New_TypeOf l want) = (None, out)"
    and "Diff l want out (outputCmpOpt tc) = Inl q"
  shows "exited (fn l tc kvs (newT h)) \<and> failed (fn l tc kvs (newT h))
       \<and> list_all (\<lambda>e. phase (fst e) \<le> 6) (events (fn l tc kvs (newT h)))"
proof -
  have "structured_ends l tc (fst (resp_Body resp))"
    using assms(3-5) by (rule structured_ends_panic)
  then have n: "list_ex ending (spec_checks l tc kvs resp)"
    by (simp add: ending_spec_checks)
  note e = ended_run [OF assms(1,2) n, of h]
  have "list_all (\<lambda>e. phase (fst e) \<le> 6) (until_end (spec_checks l tc kvs resp))"
    using until_end_subset [of "spec_checks l tc kvs resp"] sites_spec_checks [of _ l tc kvs resp]
    by (auto simp add: list_all_iff)
  then show ?thesis
    using e by simp
qed

lemma until_end_spec_structured:
  "until_end (spec_structured l tc raw) = spec_structured l tc raw"
  by (simp add: spec_structured_def split: option.splits prod.splits sum.splits)

lemma not_in_checks: "(AtGrab, a) \<notin> set (spec_checks l tc kvs resp)"
  using sites_spec_checks [of "(AtGrab, a)" l tc kvs resp] by auto

lemma events_without_fail_fast:
  assumes "buildRequest l tc = Inr req" and "Do (server tc) (jar tc) req = Inr resp"
    and nf: "\<not> fatalFailure tc"
  shows "events (fn l tc kvs (newT h)) =
      spec_checks l tc kvs resp @
      (if structured_ends l tc (fst (resp_Body resp)) then []
       else spec_capture l tc (fst (resp_Body resp)) h)"
proof -
  let ?raw = "fst (resp_Body resp)"
  let ?pre = "spec_read resp @ spec_output ?raw @ spec_status tc resp @
      concat (map (spec_header l tc resp) kvs) @ spec_raw tc ?raw"
  have p: "\<not> list_ex ending ?pre"
    using nf by (simp add: ending_spec_status ending_spec_headers ending_spec_raw)
  have s: "list_ex ending (spec_structured l tc ?raw) = structured_ends l tc ?raw"
    using nf by (simp add: ending_spec_structured)
  have c: "spec_checks l tc kvs resp = ?pre @ spec_structured l tc ?raw"
    by (simp add: spec_checks_def)
  have "spec_run l tc kvs resp h =
      until_end (?pre @ (spec_structured l tc ?raw @ spec_capture l tc ?raw h))"
    by (simp add: spec_run_def spec_checks_def)
  also have "\<dots> = ?pre @ until_end (spec_structured l tc ?raw @ spec_capture l tc ?raw h)"
    using p by (subst until_end_append) simp
  also have "until_end (spec_structured l tc ?raw @ spec_capture l tc ?raw h) =
      spec_structured l tc ?raw @
      (if structured_ends l tc ?raw then [] else spec_capture l tc ?raw h)"
    by (subst until_end_append)
      (simp add: s until_end_spec_structured until_end_spec_capture)
  finally show ?thesis
    unfolding c by (simp add: fn_trace [OF assms(1,2)])
qed

lemma header_entered:
  "(k, v) \<in> set kvs \<Longrightarrow> (AtHeader k, Enter) \<in> set (concat (map (spec_header l tc resp) kvs))"
  by (force simp add: spec_header_def)

lemma header_recorded:
  "(k, v) \<in> set kvs \<Longrightarrow> Header_Get (resp_Header resp) k \<noteq> v \<Longrightarrow>
     (AtHeader k, failure tc (msg_header tc k v (Header_Get (resp_Header resp) k)))
       \<in> set (concat (map (spec_header l tc resp) kvs))"
  by (force simp add: spec_header_def)

lemma without_fail_fast_all_run:
  assumes b: "buildRequest l tc = Inr req" and d: "Do (server tc) (jar tc) req = Inr resp"
    and nf: "\<not> fatalFailure tc"
  shows "(expectCode tc \<noteq> 0 \<longrightarrow>
            (AtCode, Enter) \<in> set (events (fn l tc kvs (newT h)))
          \<and> (StatusCode resp \<noteq> expectCode tc \<longrightarrow>
                failed (fn l tc kvs (newT h))
              \<and> (AtCode, Error (msg_code tc (StatusCode resp)))
                  \<in> set (events (fn l tc kvs (newT h)))))
       \<and> (\<forall>k v. (k, v) \<in> set kvs \<longrightarrow>
            (AtHeader k, Enter) \<in> set (events (fn l tc kvs (newT h)))
          \<and> (Header_Get (resp_Header resp) k \<noteq> v \<longrightarrow>
                failed (fn l tc kvs (newT h))
              \<and> (AtHeader k, Error (msg_header tc k v (Header_Get (resp_Header resp) k)))
                  \<in> set (events (fn l tc kvs (newT h)))))
       \<and> (\<forall>want. expectRaw tc = Some want \<longrightarrow>
            (AtRaw, Enter) \<in> set (events (fn l tc kvs (newT h)))
          \<and> (want \<noteq> fst (resp_Body resp) \<longrightarrow>
                failed (fn l tc kvs (newT h))
              \<and> (AtRaw, Error (msg_raw tc want (fst (resp_Body resp))))
                  \<in> set (events (fn l tc kvs (newT h)))))
       \<and> (\<forall>want. expectJSON tc = Some want \<longrightarrow>
            (AtJSON, Enter) \<in> set (events (fn l tc kvs (newT h)))
          \<and> (\<forall>out d. Unmarshal l (fst (resp_Body resp)) (New_TypeOf l want) = (None, out)
                  \<and> Diff l want out (outputCmpOpt tc) = Inr d \<and> d \<noteq> [] \<longrightarrow>
                failed (fn l tc kvs (newT h))
              \<and> (AtJSON, Error (msg_json tc d)) \<in> set (events (fn l tc kvs (newT h)))))
       \<and> (grabOutput tc \<noteq> None \<longrightarrow>
            ((AtGrab, Enter) \<in> set (events (fn l tc kvs (newT h))))
              = (\<not> structured_ends l tc (fst (resp_Body resp))))"
proof -
  let ?raw = "fst (resp_Body resp)"
  let ?F = "fn l tc kvs (newT h)"
  note ev = events_without_fail_fast [OF b d nf, of kvs h]
  note rf = recorded_failed [OF b d, of _ _ kvs h]
  have in_checks: "e \<in> set (events ?F)" if "e \<in> set (spec_checks l tc kvs resp)" for e
    using that by (simp add: ev)
  have f: "failure tc = Error"
    using nf by (simp add: failure_def)
  have 1: "(AtCode, Enter) \<in> set (events ?F)" if "expectCode tc \<noteq> 0"
    using that by (intro in_checks) (simp add: spec_checks_def spec_status_def)
  have 2: "(AtCode, Error (msg_code tc (StatusCode resp))) \<in> set (events ?F)"
    if "expectCode tc \<noteq> 0" "StatusCode resp \<noteq> expectCode tc"
    using that by (intro in_checks) (simp add: spec_checks_def spec_status_def f)
  have 3: "(AtHeader k, Enter) \<in> set (events ?F)" if "(k, v) \<in> set kvs" for k v
    using header_entered [OF that, of l tc resp]
    by (intro in_checks) (simp add: spec_checks_def del: set_concat)
  have 4: "(AtHeader k, Error (msg_header tc k v (Header_Get (resp_Header resp) k)))
      \<in> set (events ?F)"
    if "(k, v) \<in> set kvs" "Header_Get (resp_Header resp) k \<noteq> v" for k v
    using header_recorded [OF that, of tc l]
    by (intro in_checks) (simp add: spec_checks_def f del: set_concat)
  have 5: "(AtRaw, Enter) \<in> set (events ?F)" if "expectRaw tc = Some want" for want
    using that by (intro in_checks) (simp add: spec_checks_def spec_raw_def)
  have 6: "(AtRaw, Error (msg_raw tc want ?raw)) \<in> set (events ?F)"
    if "expectRaw tc = Some want" "want \<noteq> ?raw" for want
    using that by (intro in_checks) (simp add: spec_checks_def spec_raw_def f)
  have 7: "(AtJSON, Enter) \<in> set (events ?F)" if "expectJSON tc = Some want" for want
    using that by (intro in_checks) (simp add: spec_checks_def spec_structured_def)
  have 8: "(AtJSON, Error (msg_json tc d)) \<in> set (events ?F)"
    if "expectJSON tc = Some want" "Unmarshal l ?raw (New_TypeOf l want) = (None, out)"
      "Diff l want out (outputCmpOpt tc) = Inr d" "d \<noteq> []" for want out d
    using that by (intro in_checks) (simp add: spec_checks_def spec_structured_def f)
  have 9: "((AtGrab, Enter) \<in> set (events ?F)) = (\<not> structured_ends l tc ?raw)"
    if "grabOutput tc \<noteq> None"
    using that not_in_checks [of Enter l tc kvs resp]
    by (auto simp add: ev spec_capture_def)
  show ?thesis
    using 1 2 3 4 5 6 7 8 9 rf by blast
qed

lemma read_error_goes_on:
  assumes b: "buildRequest l tc = Inr req" and d: "Do (server tc) (jar tc) req = Inr resp"
    and r: "snd (resp_Body resp) = Some err"
  shows "failed (fn l tc kvs (newT h))
       \<and> (AtReadAll, Error (Sprintln [''error reading body:'', err]))
            \<in> set (events (fn l tc kvs (newT h)))
       \<and> (AtOutput, Log (Sprintln [''output:'' @ [newline], fst (resp_Body resp)]))
            \<in> set (events (fn l tc kvs (newT h)))
       \<and> (expectCode tc \<noteq> 0 \<longrightarrow>
            (AtCode, Enter) \<in> set (events (fn l tc kvs (newT h))))"
proof -
  let ?raw = "fst (resp_Body resp)"
  let ?F = "fn l tc kvs (newT h)"
  let ?rest = "concat (map (spec_header l tc resp) kvs) @ spec_raw tc ?raw @
      spec_structured l tc ?raw @ spec_capture l tc ?raw h"
  have "spec_run l tc kvs resp h =
      until_end ((spec_read resp @ spec_output ?raw) @ (spec_status tc resp @ ?rest))"
    by (simp add: spec_run_def spec_checks_def)
  also have "\<dots> = (spec_read resp @ spec_output ?raw) @ until_end (spec_status tc resp @ ?rest)"
    by (subst until_end_append) simp
  finally have ev: "events ?F =
      spec_read resp @ spec_output ?raw @ until_end (spec_status tc resp @ ?rest)"
    by (simp add: fn_trace [OF b d])
  have 1: "(AtReadAll, Error (Sprintln [''error reading body:'', err])) \<in> set (events ?F)"
    using r by (simp add: ev spec_read_def)
  have 2: "(AtOutput, Log (Sprintln [''output:'' @ [newline], ?raw])) \<in> set (events ?F)"
    by (simp add: ev spec_output_def)
  have 3: "(AtCode, Enter) \<in> set (events ?F)" if "expectCode tc \<noteq> 0"
    using that by (simp add: ev spec_status_def)
  from 1 have "failed ?F"
    by (rule recorded_failed [OF b d])
  with 1 2 3 show ?thesis
    by simp
qed

text \<open>
  Claim C3, amended.  With fail-fast set, a status code mismatch, a header mismatch,
  a raw-body mismatch and a non-empty structured difference each end the test with the
  failure recorded by \<open>t.Fatal\<close>, and no later statement records anything.  With
  fail-fast unset, every configured comparison up to and including the structured one
  is entered and each mismatch is recorded as an error that marks the test failed;
  the capture runs exactly when the structured step did not end the test (its decode
  succeeded and its comparison did not panic).  Whatever the flag, an error in reading
  the body is recorded as a non-fatal error after which the output is logged and the
  status check is entered, a failed decode of the structured step is fatal, and a
  panic of the structured comparison ends the test as failed before the capture.
\<close>

theorem fail_fast_policy:
  assumes b: "buildRequest l tc = Inr req" and d: "Do (server tc) (jar tc) req = Inr resp"
    and r: "range_order (expectHeaders tc) kvs"
  shows "(fatalFailure tc \<longrightarrow>
            (expectCode tc \<noteq> 0 \<and> StatusCode resp \<noteq> expectCode tc \<longrightarrow>
               aborted_by 3 (fn l tc kvs (newT h)))
          \<and> (\<forall>k v. expectHeaders tc k = Some v \<and> Header_Get (resp_Header resp) k \<noteq> v \<longrightarrow>
               aborted_by 4 (fn l tc kvs (newT h)))
          \<and> (\<forall>want. expectRaw tc = Some want \<and> want \<noteq> fst (resp_Body resp) \<longrightarrow>
               aborted_by 5 (fn l tc kvs (newT h)))
          \<and> (\<forall>want out d. expectJSON tc = Some want
                \<and> Unmarshal l (fst (resp_Body resp)) (New_TypeOf l want) = (None, out)
                \<and> Diff l want out (outputCmpOpt tc) = Inr d \<and> d \<noteq> [] \<longrightarrow>
               aborted_by 6 (fn l tc kvs (newT h))))
       \<and> (\<not> fatalFailure tc \<longrightarrow>
            (expectCode tc \<noteq> 0 \<longrightarrow>
               (AtCode, Enter) \<in> set (events (fn l tc kvs (newT h)))
             \<and> (StatusCode resp \<noteq> expectCode tc \<longrightarrow>
                   failed (fn l tc kvs (newT h))
                 \<and> (AtCode, Error (msg_code tc (StatusCode resp)))
                     \<in> set (events (fn l tc kvs (newT h)))))
          \<and> (\<forall>k v. expectHeaders tc k = Some v \<longrightarrow>
               (AtHeader k, Enter) \<in> set (events (fn l tc kvs (newT h)))
             \<and> (Header_Get (resp_Header resp) k \<noteq> v \<longrightarrow>
                   failed (fn l tc kvs (newT h))
                 \<and> (AtHeader k, Error (msg_header tc k v (Header_Get (resp_Header resp) k)))
                     \<in> set (events (fn l tc kvs (newT h)))))
          \<and> (\<forall>want. expectRaw tc = Some want \<longrightarrow>
               (AtRaw, Enter) \<in> set (events (fn l tc kvs (newT h)))
             \<and> (want \<noteq> fst (resp_Body resp) \<longrightarrow>
                   failed (fn l tc kvs (newT h))
                 \<and> (AtRaw, Error (msg_raw tc want (fst (resp_Body resp))))
                     \<in> set (events (fn l tc kvs (newT h)))))
          \<and> (\<forall>want. expectJSON tc = Some want \<longrightarrow>
               (AtJSON, Enter) \<in> set (events (fn l tc kvs (newT h)))
             \<and> (\<forall>out d. Unmarshal l (fst (resp_Body resp)) (New_TypeOf l want) = (None, out)
                     \<and> Diff l want out (outputCmpOpt tc) = Inr d \<and> d \<noteq> [] \<longrightarrow>
                   failed (fn l tc kvs (newT h))
                 \<and> (AtJSON, Error (msg_json tc d)) \<in> set (events (fn l tc kvs (newT h)))))
          \<and> (grabOutput tc \<noteq> None \<longrightarrow>
               ((AtGrab, Enter) \<in> set (events (fn l tc kvs (newT h))))
                 = (\<not> structured_ends l tc (fst (resp_Body resp)))))
       \<and> (\<forall>err. snd (resp_Body resp) = Some err \<longrightarrow>
            failed (fn l tc kvs (newT h))
          \<and> (AtReadAll, Error (Sprintln [''error reading body:'', err]))
               \<in> set (events (fn l tc kvs (newT h)))
          \<and> (AtOutput, Log (Sprintln [''output:'' @ [newline], fst (resp_Body resp)]))
               \<in> set (events (fn l tc kvs (newT h)))
          \<and> (expectCode tc \<noteq> 0 \<longrightarrow>
               (AtCode, Enter) \<in> set (events (fn l tc kvs (newT h)))))
       \<and> (\<forall>want err out. expectJSON tc = Some want
              \<and> Unmarshal l (fst (resp_Body resp)) (New_TypeOf l want) = (Some err, out) \<longrightarrow>
            aborted_by 6 (fn l tc kvs (newT h)))
       \<and> (\<forall>want out q. expectJSON tc = Some want
              \<and> Unmarshal l (fst (resp_Body resp)) (New_TypeOf l want) = (None, out)
              \<and> Diff l want out (outputCmpOpt tc) = Inl q \<longrightarrow>
            exited (fn l tc kvs (newT h)) \<and> failed (fn l tc kvs (newT h))
          \<and> list_all (\<lambda>e. phase (fst e) \<le> 6) (events (fn l tc kvs (newT h))))"
proof (intro conjI)
  note m = range_order_member [OF r]
  show "fatalFailure tc \<longrightarrow>
            (expectCode tc \<noteq> 0 \<and> StatusCode resp \<noteq> expectCode tc \<longrightarrow>
               aborted_by 3 (fn l tc kvs (newT h)))
          \<and> (\<forall>k v. expectHeaders tc k = Some v \<and> Header_Get (resp_Header resp) k \<noteq> v \<longrightarrow>
               aborted_by 4 (fn l tc kvs (newT h)))
          \<and> (\<forall>want. expectRaw tc = Some want \<and> want \<noteq> fst (resp_Body resp) \<longrightarrow>
               aborted_by 5 (fn l tc kvs (newT h)))
          \<and> (\<forall>want out d. expectJSON tc = Some want
                \<and> Unmarshal l (fst (resp_Body resp)) (New_TypeOf l want) = (None, out)
                \<and> Diff l want out (outputCmpOpt tc) = Inr d \<and> d \<noteq> [] \<longrightarrow>
               aborted_by 6 (fn l tc kvs (newT h)))"
    using fail_fast_status [OF b d, of kvs h] fail_fast_header [OF b d, of _ _ kvs h]
      fail_fast_raw [OF b d, of _ kvs h] fail_fast_diff [OF b d, of _ _ _ kvs h] m
    by blast
  show "\<not> fatalFailure tc \<longrightarrow>
            (expectCode tc \<noteq> 0 \<longrightarrow>
               (AtCode, Enter) \<in> set (events (fn l tc kvs (newT h)))
             \<and> (StatusCode resp \<noteq> expectCode tc \<longrightarrow>
                   failed (fn l tc kvs (newT h))
                 \<and> (AtCode, Error (msg_code tc (StatusCode resp)))
                     \<in> set (events (fn l tc kvs (newT h)))))
          \<and> (\<forall>k v. expectHeaders tc k = Some v \<longrightarrow>
               (AtHeader k, Enter) \<in> set (events (fn l tc kvs (newT h)))
             \<and> (Header_Get (resp_Header resp) k \<noteq> v \<longrightarrow>
                   failed (fn l tc kvs (newT h))
                 \<and> (AtHeader k, Error (msg_header tc k v (Header_Get (resp_Header resp) k)))
                     \<in> set (events (fn l tc kvs (newT h)))))
          \<and> (\<forall>want. expectRaw tc = Some want \<longrightarrow>
               (AtRaw, Enter) \<in> set (events (fn l tc kvs (newT h)))
             \<and> (want \<noteq> fst (resp_Body resp) \<longrightarrow>
                   failed (fn l tc kvs (newT h))
                 \<and> (AtRaw, Error (msg_raw tc want (fst (resp_Body resp))))
                     \<in> set (events (fn l tc kvs (newT h)))))
          \<and> (\<forall>want. expectJSON tc = Some want \<longrightarrow>
               (AtJSON, Enter) \<in> set (events (fn l tc kvs (newT h)))
             \<and> (\<forall>out d. Unmarshal l (fst (resp_Body resp)) (New_TypeOf l want) = (None, out)
                     \<and> Diff l want out (outputCmpOpt tc) = Inr d \<and> d \<noteq> [] \<longrightarrow>
                   failed (fn l tc kvs (newT h))
                 \<and> (AtJSON, Error (msg_json tc d)) \<in> set (events (fn l tc kvs (newT h)))))
          \<and> (grabOutput tc \<noteq> None \<longrightarrow>
               ((AtGrab, Enter) \<in> set (events (fn l tc kvs (newT h))))
                 = (\<not> structured_ends l tc (fst (resp_Body resp))))"
    using without_fail_fast_all_run [OF b d, of kvs h] unfolding m by (rule impI)
  show "\<forall>err. snd (resp_Body resp) = Some err \<longrightarrow>
            failed (fn l tc kvs (newT h))
          \<and> (AtReadAll, Error (Sprintln [''error reading body:'', err]))
               \<in> set (events (fn l tc kvs (newT h)))
          \<and> (AtOutput, Log (Sprintln [''output:'' @ [newline], fst (resp_Body resp)]))
               \<in> set (events (fn l tc kvs (newT h)))
          \<and> (expectCode tc \<noteq> 0 \<longrightarrow>
               (AtCode, Enter) \<in> set (events (fn l tc kvs (newT h))))"
    using read_error_goes_on [OF b d, of _ kvs h] by blast
  show "\<forall>want err out. expectJSON tc = Some want
              \<and> Unmarshal l (fst (resp_Body resp)) (New_TypeOf l want) = (Some err, out) \<longrightarrow>
            aborted_by 6 (fn l tc kvs (newT h))"
    using decode_failure_fatal [OF b d, of _ _ _ kvs h] by blast
  show "\<forall>want out q. expectJSON tc = Some want
              \<and> Unmarshal l (fst (resp_Body resp)) (New_TypeOf l want) = (None, out)
              \<and> Diff l want out (outputCmpOpt tc) = Inl q \<longrightarrow>
            exited (fn l tc kvs (newT h)) \<and> failed (fn l tc kvs (newT h))
          \<and> list_all (\<lambda>e. phase (fst e) \<le> 6) (events (fn l tc kvs (newT h)))"
    using diff_panic_ends [OF b d, of _ _ _ kvs h] by blast
qed

text \<open>
  Claim C3 as stated fails twice.  It counts the error in reading the response body
  among the outcomes that fail-fast turns into an abort: with fail-fast set and a read
  error the run records the error, goes on to the status check and reaches its end.
  And with fail-fast unset the subsequent assertions do not always run: a body that
  does not decode in the structured step ends the test there, after the status mismatch
  was recorded, and the configured capture never runs.
\<close>

theorem read_error_under_fail_fast_counterexample:
  "fatalFailure ((newTestCase (answering 200 Map.empty (''4'', Some ''unexpected EOF'')) ''GET'' ''/answer''
        :: (scalar, unit) testCase)\<lparr>expectCode := 200, fatalFailure := True\<rparr>)
   \<and> events (fn lib0
        ((newTestCase (answering 200 Map.empty (''4'', Some ''unexpected EOF'')) ''GET'' ''/answer'')
           \<lparr>expectCode := 200, fatalFailure := True\<rparr>)
        [] (newT (\<lambda>p. GoInt 0)))
      = [(AtReadAll, Enter),
         (AtReadAll, Error (Sprintln [''error reading body:'', ''unexpected EOF''])),
         (AtOutput, Log (Sprintln [''output:'' @ [newline], ''4''])),
         (AtCode, Enter)]
   \<and> \<not> exited (fn lib0
        ((newTestCase (answering 200 Map.empty (''4'', Some ''unexpected EOF'')) ''GET'' ''/answer'')
           \<lparr>expectCode := 200, fatalFailure := True\<rparr>)
        [] (newT (\<lambda>p. GoInt 0)))
   \<and> \<not> fatalFailure ((newTestCase (answering 500 Map.empty (''oops'', None)) ''GET'' ''/answer''
        :: (scalar, unit) testCase)
           \<lparr>expectCode := 200, expectJSON := Some (GoInt 42), grabOutput := Some 0\<rparr>)
   \<and> events (fn lib0
        ((newTestCase (answering 500 Map.empty (''oops'', None)) ''GET'' ''/answer'')
           \<lparr>expectCode := 200, expectJSON := Some (GoInt 42), grabOutput := Some 0\<rparr>)
        [] (newT (\<lambda>p. GoInt 0)))
      = [(AtReadAll, Enter),
         (AtOutput, Log (Sprintln [''output:'' @ [newline], ''oops''])),
         (AtCode, Enter),
         (AtCode, Error ''[GET /answer] unexpected response code: want 200, got 500''),
         (AtJSON, Enter),
         (AtJSON, Fatal (Sprintln [''invalid character'']))]
   \<and> exited (fn lib0
        ((newTestCase (answering 500 Map.empty (''oops'', None)) ''GET'' ''/answer'')
           \<lparr>expectCode := 200, expectJSON := Some (GoInt 42), grabOutput := Some 0\<rparr>)
        [] (newT (\<lambda>p. GoInt 0)))"
proof -
  let ?s = "answering 200 Map.empty (''4'', Some ''unexpected EOF'')"
  let ?tc = "(newTestCase ?s ''GET'' ''/answer'' :: (scalar, unit) testCase)
           \<lparr>expectCode := 200, fatalFailure := True\<rparr>"
  let ?req = "\<lparr>req_Method = ''GET'', req_URL = URL ?s @ ''/answer'', req_Header = Map.empty,
      req_Body = None\<rparr>"
  let ?resp = "\<lparr>StatusCode = 200, resp_Header = Map.empty,
      resp_Body = (''4'', Some ''unexpected EOF'')\<rparr>"
  let ?u = "answering 500 Map.empty (''oops'', None)"
  let ?soft = "(newTestCase ?u ''GET'' ''/answer'' :: (scalar, unit) testCase)
           \<lparr>expectCode := 200, expectJSON := Some (GoInt 42), grabOutput := Some 0\<rparr>"
  let ?requ = "\<lparr>req_Method = ''GET'', req_URL = URL ?u @ ''/answer'', req_Header = Map.empty,
      req_Body = None\<rparr>"
  let ?respu = "\<lparr>StatusCode = 500, resp_Header = Map.empty, resp_Body = (''oops'', None)\<rparr>"
  have b: "buildRequest lib0 ?tc = Inr ?req"
    by (simp add: buildRequest_lib0 newTestCase_def)
  have d: "Do (server ?tc) (jar ?tc) ?req = Inr ?resp"
    by (simp add: Do_answering newTestCase_def)
  have run: "fn lib0 ?tc [] (newT (\<lambda>p. GoInt 0)) =
      enter AtCode (t_Log AtOutput (Sprintln [''output:'' @ [newline], ''4''])
        (t_Error AtReadAll (Sprintln [''error reading body:'', ''unexpected EOF''])
          (enter AtReadAll (newT (\<lambda>p. GoInt 0)))))"
    by (subst fn_eval [OF b d])
      (simp add: seq_def read_body_def log_output_def check_code_def check_raw_def
        check_json_def grab_def newTestCase_def)
  have bu: "buildRequest lib0 ?soft = Inr ?requ"
    by (simp add: buildRequest_lib0 newTestCase_def)
  have du: "Do (server ?soft) (jar ?soft) ?requ = Inr ?respu"
    by (simp add: Do_answering newTestCase_def)
  have runu: "fn lib0 ?soft [] (newT (\<lambda>p. GoInt 0)) =
      t_Fatal AtJSON (Sprintln [''invalid character''])
        (enter AtJSON
          (t_Error AtCode ''[GET /answer] unexpected response code: want 200, got 500''
            (enter AtCode (t_Log AtOutput (Sprintln [''output:'' @ [newline], ''oops''])
              (enter AtReadAll (newT (\<lambda>p. GoInt 0)))))))"
    by (subst fn_eval [OF bu du])
      (simp add: seq_def read_body_def log_output_def check_code_def check_raw_def
        check_json_def grab_def fail_def msg_code_def tag_def itoa_200 itoa_500 lib0_def
        newTestCase_def)
  show ?thesis
    unfolding run runu by (simp add: newTestCase_def)
qed

theorem fail_fast_policy_witness:
  "aborted_by 3 (fn lib0
        ((newTestCase (answering 500 Map.empty (''41'', None)) ''GET'' ''/answer'')
           \<lparr>expectCode := 200, expectRaw := Some ''42'', fatalFailure := True\<rparr>)
        [] (newT (\<lambda>p. GoInt 0)))
   \<and> (AtCode, Error ''[GET /answer] unexpected response code: want 200, got 500'')
       \<in> set (events (fn lib0
        ((newTestCase (answering 500 Map.empty (''41'', None)) ''GET'' ''/answer'')
           \<lparr>expectCode := 200, expectRaw := Some ''42'', expectJSON := Some (GoInt 42),
            grabOutput := Some 0\<rparr>)
        [] (newT (\<lambda>p. GoInt 0))))
   \<and> (AtRaw, Error (msg_raw
          ((newTestCase (answering 500 Map.empty (''41'', None)) ''GET'' ''/answer'' :: (scalar, unit) testCase)
             \<lparr>expectCode := 200, expectRaw := Some ''42'', expectJSON := Some (GoInt 42),
              grabOutput := Some 0\<rparr>) ''42'' ''41''))
       \<in> set (events (fn lib0
        ((newTestCase (answering 500 Map.empty (''41'', None)) ''GET'' ''/answer'')
           \<lparr>expectCode := 200, expectRaw := Some ''42'', expectJSON := Some (GoInt 42),
            grabOutput := Some 0\<rparr>)
        [] (newT (\<lambda>p. GoInt 0))))
   \<and> (AtGrab, Enter)
       \<notin> set (events (fn lib0
        ((newTestCase (answering 500 Map.empty (''41'', None)) ''GET'' ''/answer'')
           \<lparr>expectCode := 200, expectRaw := Some ''42'', expectJSON := Some (GoInt 42),
            grabOutput := Some 0\<rparr>)
        [] (newT (\<lambda>p. GoInt 0))))
   \<and> aborted_by 6 (fn lib0
        ((newTestCase (answering 500 Map.empty (''41'', None)) ''GET'' ''/answer'')
           \<lparr>expectCode := 200, expectRaw := Some ''42'', expectJSON := Some (GoInt 42),
            grabOutput := Some 0\<rparr>)
        [] (newT (\<lambda>p. GoInt 0)))"
proof -
  let ?s = "answering 500 Map.empty (''41'', None)"
  let ?soft = "(newTestCase ?s ''GET'' ''/answer'' :: (scalar, unit) testCase)
           \<lparr>expectCode := 200, expectRaw := Some ''42'', expectJSON := Some (GoInt 42),
            grabOutput := Some 0\<rparr>"
  let ?hard = "(newTestCase ?s ''GET'' ''/answer'' :: (scalar, unit) testCase)
           \<lparr>expectCode := 200, expectRaw := Some ''42'', fatalFailure := True\<rparr>"
  let ?req = "\<lparr>req_Method = ''GET'', req_URL = URL ?s @ ''/answer'', req_Header = Map.empty,
      req_Body = None\<rparr>"
  let ?resp = "\<lparr>StatusCode = 500, resp_Header = Map.empty, resp_Body = (''41'', None)\<rparr>"
  have bs: "buildRequest lib0 ?soft = Inr ?req"
    by (simp add: buildRequest_lib0 newTestCase_def)
  have bh: "buildRequest lib0 ?hard = Inr ?req"
    by (simp add: buildRequest_lib0 newTestCase_def)
  have ds: "Do (server ?soft) (jar ?soft) ?req = Inr ?resp"
    by (simp add: Do_answering newTestCase_def)
  have dh: "Do (server ?hard) (jar ?hard) ?req = Inr ?resp"
    by (simp add: Do_answering newTestCase_def)
  have rs: "range_order (expectHeaders ?soft) []"
    by (simp add: range_order_def newTestCase_def)
  have rh: "range_order (expectHeaders ?hard) []"
    by (simp add: range_order_def newTestCase_def)
  have hard: "aborted_by 3 (fn lib0 ?hard [] (newT (\<lambda>p. GoInt 0)))"
    using fail_fast_policy [OF bh dh rh, of "\<lambda>p. GoInt 0"]
    by (simp add: newTestCase_def)
  have soft: "(AtCode, Error ''[GET /answer] unexpected response code: want 200, got 500'')
       \<in> set (events (fn lib0 ?soft [] (newT (\<lambda>p. GoInt 0))))
     \<and> (AtRaw, Error (msg_raw ?soft ''42'' ''41''))
       \<in> set (events (fn lib0 ?soft [] (newT (\<lambda>p. GoInt 0))))
     \<and> (AtGrab, Enter) \<notin> set (events (fn lib0 ?soft [] (newT (\<lambda>p. GoInt 0))))
     \<and> aborted_by 6 (fn lib0 ?soft [] (newT (\<lambda>p. GoInt 0)))"
    using fail_fast_policy [OF bs ds rs, of "\<lambda>p. GoInt 0"]
    by (simp add: newTestCase_def msg_code_def tag_def itoa_200 itoa_500 structured_ends_def
        lib0_def)
  from hard soft show ?thesis
    by (intro conjI) (elim conjE, assumption)+
qed


end
